theory Spec2Isabelle
  imports Complex_Main
begin

section \<open>Shared conventions\<close>

text \<open>
  The three components verified here are the generation queue (class \<open>AIProcessor\<close>),
  the print queue (class \<open>PrinterQueue\<close>) and the live-view broadcaster (class
  \<open>CameraService\<close>). Each is a single-threaded JavaScript object whose methods run
  until their next \<open>await\<close>; the models below therefore are step functions: one step is
  the code that runs between two suspension points, and what the outside world answers
  (a file check, a child process, the camera driver) is the payload of the event that
  resumes the code. A step that cannot happen in a state is \<open>None\<close>.

  Buffers and byte strings are \<open>string\<close>. Counters that the code only increments from
  0 are \<open>nat\<close> or \<open>int\<close>.
\<close>

type_synonym buffer = string

text \<open>
  A JavaScript number that comes from outside is a \<open>number\<close>: \<open>NaN\<close>, an infinity, or a
  finite double, given by its exact value (a rational). Comparison, \<open>Math.min\<close> and
  \<open>Math.max\<close> are exact on doubles and are modelled on these values; a comparison with
  \<open>NaN\<close> is false and \<open>Math.min\<close>, \<open>Math.max\<close> of \<open>NaN\<close> are \<open>NaN\<close>.
\<close>

datatype number = NaN | NegInf | Fin rat | PosInf

fun js_less :: "number \<Rightarrow> number \<Rightarrow> bool" where
  "js_less NaN y = False"
| "js_less x NaN = False"
| "js_less PosInf y = False"
| "js_less x NegInf = False"
| "js_less NegInf y = True"
| "js_less (Fin a) PosInf = True"
| "js_less (Fin a) (Fin b) = (a < b)"

definition js_min :: "number \<Rightarrow> number \<Rightarrow> number" where
  "js_min a b = (if a = NaN \<or> b = NaN then NaN else if js_less b a then b else a)"

definition js_max :: "number \<Rightarrow> number \<Rightarrow> number" where
  "js_max a b = (if a = NaN \<or> b = NaN then NaN else if js_less a b then b else a)"

text \<open>
  Arithmetic on doubles rounds, and is not evaluated here: what the code computes from
  numbers is kept as the expression it evaluates. \<open>Decimal r\<close> is the double that the
  decimal literal \<open>r\<close> of the source denotes, \<open>Count n\<close> the integer \<open>n\<close>.
\<close>

datatype num_expr =
    Value number
  | Decimal rat
  | Count nat
  | Plus num_expr num_expr
  | Diff num_expr num_expr
  | Times num_expr num_expr
  | Over num_expr num_expr
  | Minus num_expr

text \<open>
  The double that the literal \<open>0.7\<close> denotes, \<open>0x3FE6666666666666\<close>: a multiple of
  \<open>2\<^sup>-\<^sup>5\<^sup>3\<close> in the binade of 1/2, less than half a unit in the last place from 7/10.
\<close>

definition double_0_7 :: rat where
  "double_0_7 = 6305039478318694 / 2 ^ 53"

text \<open>JavaScript truthiness of an optional string: \<open>undefined\<close> and \<open>''\<close> are falsy.\<close>

definition truthy :: "string option \<Rightarrow> bool" where
  "truthy v = (case v of None \<Rightarrow> False | Some s \<Rightarrow> s \<noteq> [])"

text \<open>
  How a template literal renders an integer: decimal digits, most significant first,
  built from the least significant end; a minus sign in front of a negative number.
\<close>

definition digit_char :: "nat \<Rightarrow> char" where
  "digit_char d = ''0123456789'' ! d"

function decimal_digits :: "nat \<Rightarrow> string \<Rightarrow> string" where
  "decimal_digits n acc =
     (if n div 10 = 0 then digit_char (n mod 10) # acc
      else decimal_digits (n div 10) (digit_char (n mod 10) # acc))"
  by pat_completeness auto
termination
  by (relation "measure fst") auto

definition show_nat :: "nat \<Rightarrow> string" where
  "show_nat n = decimal_digits n []"

definition show_int :: "int \<Rightarrow> string" where
  "show_int i = (if 0 \<le> i then show_nat (nat i) else CHR ''-'' # show_nat (nat (- i)))"

section \<open>Generation queue: \<open>AIProcessor\<close>\<close>

subsection \<open>Requests, presets and the style pipeline\<close>

datatype StyleType = Vogue | Cartoon | Cyberpunk | Anime | PopArt | Freestyle | Studio | Cinematic

text \<open>
  \<open>AIJobRequest\<close>. Every field the source marks optional is an \<open>option\<close>;
  \<open>intensity\<close> and \<open>variations\<close> are any JavaScript number.
\<close>

record AIJobRequest =
  sourcePath :: "string option"
  base64 :: "string option"
  prompt :: "string option"
  style :: "StyleType option"
  intensity :: "number option"
  variations :: "number option"

text \<open>The presets, each number the decimal literal of the source.\<close>

record StylePreset =
  saturation :: rat
  contrast :: rat
  gamma :: rat
  blur :: "rat option"
  tint :: "(nat \<times> nat \<times> nat) option"

fun STYLE_PRESETS :: "StyleType \<Rightarrow> StylePreset" where
  "STYLE_PRESETS Vogue =
     \<lparr>saturation = 105 / 100, contrast = 11 / 10, gamma = 95 / 100, blur = None, tint = None\<rparr>"
| "STYLE_PRESETS Cartoon =
     \<lparr>saturation = 14 / 10, contrast = 125 / 100, gamma = 8 / 10, blur = Some (1 / 2), tint = None\<rparr>"
| "STYLE_PRESETS Cyberpunk =
     \<lparr>saturation = 15 / 10, contrast = 13 / 10, gamma = 9 / 10, blur = None,
      tint = Some (120, 60, 200)\<rparr>"
| "STYLE_PRESETS Anime =
     \<lparr>saturation = 135 / 100, contrast = 115 / 100, gamma = 85 / 100, blur = None, tint = None\<rparr>"
| "STYLE_PRESETS PopArt =
     \<lparr>saturation = 16 / 10, contrast = 14 / 10, gamma = 7 / 10, blur = None, tint = None\<rparr>"
| "STYLE_PRESETS Freestyle =
     \<lparr>saturation = 1, contrast = 1, gamma = 1, blur = None, tint = None\<rparr>"
| "STYLE_PRESETS Studio =
     \<lparr>saturation = 11 / 10, contrast = 12 / 10, gamma = 9 / 10, blur = None, tint = None\<rparr>"
| "STYLE_PRESETS Cinematic =
     \<lparr>saturation = 95 / 100, contrast = 125 / 100, gamma = 105 / 100, blur = None,
      tint = Some (255, 130, 60)\<rparr>"

fun style_name :: "StyleType \<Rightarrow> string" where
  "style_name Vogue = ''Vogue''"
| "style_name Cartoon = ''Cartoon''"
| "style_name Cyberpunk = ''Cyberpunk''"
| "style_name Anime = ''Anime''"
| "style_name PopArt = ''Pop Art''"
| "style_name Freestyle = ''Freestyle''"
| "style_name Studio = ''Studio''"
| "style_name Cinematic = ''Cinematic''"

definition toLowerCase :: "string \<Rightarrow> string" where
  "toLowerCase s =
     map (\<lambda>c. if (65::nat) \<le> of_char c \<and> (of_char c :: nat) \<le> 90
              then char_of ((of_char c :: nat) + 32) else c) s"

text \<open>
  The image library is driven through a builder: \<open>applyStyle\<close> queues operations on a
  pipeline and only the final \<open>toBuffer\<close> call renders. The queued operations, with the
  expressions whose values they are given, are the pipeline parameters.
\<close>

record Watermark =
  wm_width :: nat
  wm_height :: nat
  wm_style :: StyleType
  wm_prompt :: string

datatype sharp_op =
    Resize nat nat
  | Modulate num_expr num_expr
  | Linear num_expr num_expr
  | Gamma num_expr
  | Blur num_expr
  | TintOverlay nat nat nat num_expr
  | Median nat
  | SharpenCartoon
  | Threshold nat
  | SharpenDefault
  | ModulateHue nat num_expr
  | CompositeWatermark Watermark
  | Jpeg nat

definition buildWatermark :: "StyleType \<Rightarrow> string option \<Rightarrow> Watermark" where
  "buildWatermark st p =
     \<lparr>wm_width = 600,
      wm_height = (if truthy p then 140 else 90),
      wm_style = st,
      wm_prompt = (case p of None \<Rightarrow> '''' | Some s \<Rightarrow> if s \<noteq> [] then take 120 s else '''')\<rparr>"

text \<open>
  \<open>seed\<close> is the loop index of \<open>generate\<close>, a small non-negative integer, on which
  \<open>(seed * 13) % 7\<close> is exact.
\<close>

definition variationFactor :: "nat \<Rightarrow> num_expr" where
  "variationFactor seed = Plus (Decimal 1) (Over (Count ((seed * 13) mod 7)) (Decimal 20))"

definition applyStyle_pipeline ::
  "StyleType \<Rightarrow> number \<Rightarrow> nat \<Rightarrow> string option \<Rightarrow> sharp_op list" where
  "applyStyle_pipeline st x seed p =
     (let preset = STYLE_PRESETS st in
      [Resize 2048 2048,
       Modulate
         (Times (Times (Decimal (saturation preset))
                       (Plus (Decimal 1) (Times (Value x) (Decimal (2 / 10)))))
                (variationFactor seed))
         (Plus (Decimal 1) (Times (Value x) (Decimal (5 / 100)))),
       Linear (Decimal (contrast preset))
              (Times (Minus (Diff (Decimal (contrast preset)) (Decimal 1))) (Decimal 32)),
       Gamma (Decimal (gamma preset))]
      @ (case blur preset of
           None \<Rightarrow> []
         | Some b \<Rightarrow>
             if b \<noteq> 0
             then [Blur (Plus (Times (Decimal b) (Value x)) (Times (Count seed) (Decimal (2 / 100))))]
             else [])
      @ (case tint preset of
           None \<Rightarrow> []
         | Some (r, g, b) \<Rightarrow> [TintOverlay r g b (Times (Decimal (15 / 100)) (Value x))])
      @ (if st = Cartoon then [Median 3, SharpenCartoon, Threshold 235]
         else if st = Cyberpunk
         then [SharpenDefault, Linear (Decimal (12 / 10)) (Minus (Decimal 15)),
               ModulateHue 30 (Decimal (12 / 10))]
         else [])
      @ [CompositeWatermark (buildWatermark st p), Jpeg 93])"

subsection \<open>Running one job: \<open>loadSource\<close>, \<open>applyStyle\<close>, \<open>generate\<close>\<close>

text \<open>
  What a job meets outside the process: library functions (\<open>decode64\<close>, \<open>encode64\<close>,
  \<open>path_join\<close>), the file system (\<open>readFile\<close>, \<open>writeFile\<close>), the image renderer
  (\<open>toBuffer\<close>), the UUID source (indexed by the loop iteration that draws it) and the
  clock at completion. A failing call is \<open>Inl\<close> of the error message.
\<close>

record env =
  decode64 :: "string \<Rightarrow> buffer"
  encode64 :: "buffer \<Rightarrow> string"
  path_join :: "string \<Rightarrow> string \<Rightarrow> string"
  readFile :: "string \<Rightarrow> string + buffer"
  toBuffer :: "buffer \<Rightarrow> sharp_op list \<Rightarrow> string + buffer"
  writeFile :: "string \<Rightarrow> buffer \<Rightarrow> string option"
  randomUUID :: "nat \<Rightarrow> string"
  now :: nat

text \<open>\<open>maxParallelJobs\<close> limits a number of jobs: it is a natural number.\<close>

record AIProcessorOptions =
  processedDir :: string
  maxParallelJobs :: nat
  provider :: string
  defaultStyle :: StyleType

record AIJobResult =
  outputs :: "string list"
  res_style :: StyleType
  previews :: "string list"
  res_prompt :: "string option"
  res_provider :: string
  startedAt :: nat
  completedAt :: nat

text \<open>\<open>s.split(',')[1]\<close>: the text between the first and the second comma, if any.\<close>

definition split_second :: "string \<Rightarrow> string option" where
  "split_second s =
     (case dropWhile (\<lambda>c. c \<noteq> CHR '','') s of
        [] \<Rightarrow> None
      | _ # rest \<Rightarrow> Some (takeWhile (\<lambda>c. c \<noteq> CHR '','') rest))"

definition loadSource :: "env \<Rightarrow> AIJobRequest \<Rightarrow> string + buffer" where
  "loadSource e request =
     (case base64 request of
        Some b \<Rightarrow>
          if b \<noteq> [] then
            Inr (decode64 e (case split_second b of None \<Rightarrow> b | Some raw \<Rightarrow> raw))
          else if \<not> truthy (sourcePath request) then Inl ''No AI source provided''
          else readFile e (the (sourcePath request))
      | None \<Rightarrow>
          if \<not> truthy (sourcePath request) then Inl ''No AI source provided''
          else readFile e (the (sourcePath request)))"

definition applyStyle ::
  "env \<Rightarrow> buffer \<Rightarrow> StyleType \<Rightarrow> number \<Rightarrow> nat \<Rightarrow> string option \<Rightarrow> string + buffer" where
  "applyStyle e buf st x seed p = toBuffer e buf (applyStyle_pipeline st x seed p)"

text \<open>
  The \<open>for\<close> loop of \<open>generate\<close>: \<open>i\<close> runs from 0 while \<open>i < variations\<close>. Taken
  by itself the loop need not end (it does not for an infinite bound), so not returning
  is the value \<open>None\<close>.
\<close>

partial_function (option) generate_loop ::
  "AIProcessorOptions \<Rightarrow> env \<Rightarrow> buffer \<Rightarrow> StyleType \<Rightarrow> number \<Rightarrow> string option \<Rightarrow> number \<Rightarrow> nat \<Rightarrow>
   string list \<Rightarrow> string list \<Rightarrow> (string + (string list \<times> string list)) option" where
  "generate_loop opts e src st x p v i outs prevs =
     (if js_less (Fin (of_nat i)) v then
        (case applyStyle e src st x i p of
           Inl err \<Rightarrow> Some (Inl err)
         | Inr variationBuffer \<Rightarrow>
             (let filename = randomUUID e i @ ''-'' @ toLowerCase (style_name st) @ ''-v''
                               @ show_nat (i + 1) @ ''.jpg'';
                  outputPath = path_join e (processedDir opts) filename
              in case writeFile e outputPath variationBuffer of
                   Some err \<Rightarrow> Some (Inl err)
                 | None \<Rightarrow>
                     generate_loop opts e src st x p v (i + 1) (outs @ [outputPath])
                       (prevs @ [''data:image/jpeg;base64,'' @ encode64 e variationBuffer])))
      else Some (Inr (outs, prevs)))"

definition effective_variations :: "AIJobRequest \<Rightarrow> number" where
  "effective_variations request =
     js_max (Fin 1) (js_min (Fin 5) (case variations request of None \<Rightarrow> Fin 1 | Some v \<Rightarrow> v))"

definition effective_intensity :: "AIJobRequest \<Rightarrow> number" where
  "effective_intensity request =
     js_min (Fin 1) (js_max (Fin 0) (case intensity request of None \<Rightarrow> Fin double_0_7 | Some x \<Rightarrow> x))"

definition generate ::
  "AIProcessorOptions \<Rightarrow> env \<Rightarrow> AIJobRequest \<Rightarrow> nat \<Rightarrow> (string + AIJobResult) option" where
  "generate opts e request started =
     (if \<not> truthy (sourcePath request) \<and> \<not> truthy (base64 request) then
        Some (Inl ''AI job missing source image'')
      else
        (let st = (case style request of None \<Rightarrow> defaultStyle opts | Some s \<Rightarrow> s);
             v = effective_variations request;
             x = effective_intensity request
         in case loadSource e request of
              Inl err \<Rightarrow> Some (Inl err)
            | Inr sourceBuffer \<Rightarrow>
                (case generate_loop opts e sourceBuffer st x (prompt request) v 0 [] [] of
                   None \<Rightarrow> None
                 | Some (Inl err) \<Rightarrow> Some (Inl err)
                 | Some (Inr (outs, prevs)) \<Rightarrow>
                     Some (Inr \<lparr>outputs = outs, res_style = st, previews = prevs,
                                res_prompt = prompt request, res_provider = provider opts,
                                startedAt = started, completedAt = now e\<rparr>))))"

subsection \<open>The queue: \<open>enqueue\<close>, \<open>processQueue\<close>, completion\<close>

text \<open>
  A \<open>PendingJob\<close> is a request with the \<open>resolve\<close>/\<open>reject\<close> pair of the promise that
  \<open>enqueue\<close> returned; \<open>job_id\<close> stands for that pair. Besides the two fields of the
  class (\<open>queue\<close>, \<open>activeJobs\<close>) the state holds what the runtime holds for it: the
  jobs whose \<open>runJob\<close> has been called and whose \<open>finally\<close> handler has not yet run
  (each with its \<open>startedAt\<close>), and the number of \<open>setImmediate\<close> callbacks scheduled.
\<close>

record PendingJob =
  job_id :: nat
  request :: AIJobRequest

record AIProcessor =
  queue :: "PendingJob list"
  activeJobs :: int
  running :: "(PendingJob \<times> nat) list"
  immediates :: nat

datatype action =
    RunJob PendingJob
  | Resolve nat AIJobResult
  | Reject nat string

definition ai_init :: AIProcessor where
  "ai_init = \<lparr>queue = [], activeJobs = 0, running = [], immediates = 0\<rparr>"

definition processQueue :: "AIProcessorOptions \<Rightarrow> nat \<Rightarrow> AIProcessor \<Rightarrow> AIProcessor \<times> action list" where
  "processQueue opts clock s =
     (if activeJobs s \<ge> int (maxParallelJobs opts) then (s, [])
      else case queue s of
             [] \<Rightarrow> (s, [])
           | job # rest \<Rightarrow>
               (s\<lparr>queue := rest, activeJobs := activeJobs s + 1,
                  running := running s @ [(job, clock)]\<rparr>,
                [RunJob job]))"

definition enqueue :: "AIProcessorOptions \<Rightarrow> nat \<Rightarrow> PendingJob \<Rightarrow> AIProcessor \<Rightarrow> AIProcessor \<times> action list" where
  "enqueue opts clock job s = processQueue opts clock (s\<lparr>queue := queue s @ [job]\<rparr>)"

text \<open>
  \<open>finish\<close> is the tail of \<open>processQueue\<close> for one running job: \<open>runJob\<close> settles with
  the outcome of \<open>generate\<close> (the caller's promise is resolved or rejected), then the
  \<open>finally\<close> handler decrements the counter and schedules \<open>processQueue\<close> again. A job
  whose \<open>generate\<close> does not return does not finish.
\<close>

definition finish :: "AIProcessorOptions \<Rightarrow> nat \<Rightarrow> env \<Rightarrow> AIProcessor \<Rightarrow> (AIProcessor \<times> action list) option" where
  "finish opts j e s =
     (case find (\<lambda>r. job_id (fst r) = j) (running s) of
        None \<Rightarrow> None
      | Some r \<Rightarrow>
          (case generate opts e (request (fst r)) (snd r) of
             None \<Rightarrow> None
           | Some out \<Rightarrow>
               Some (s\<lparr>activeJobs := activeJobs s - 1, running := remove1 r (running s),
                       immediates := immediates s + 1\<rparr>,
                     [case out of Inl err \<Rightarrow> Reject j err | Inr res \<Rightarrow> Resolve j res])))"

definition immediate :: "AIProcessorOptions \<Rightarrow> nat \<Rightarrow> AIProcessor \<Rightarrow> (AIProcessor \<times> action list) option" where
  "immediate opts clock s =
     (if immediates s = 0 then None
      else Some (processQueue opts clock (s\<lparr>immediates := immediates s - 1\<rparr>)))"

datatype event =
    Enqueue nat PendingJob
  | Finish nat env
  | Immediate nat

fun ai_step :: "AIProcessorOptions \<Rightarrow> event \<Rightarrow> AIProcessor \<Rightarrow> (AIProcessor \<times> action list) option" where
  "ai_step opts (Enqueue clock job) s = Some (enqueue opts clock job s)"
| "ai_step opts (Finish j e) s = finish opts j e s"
| "ai_step opts (Immediate clock) s = immediate opts clock s"

text \<open>Running a list of events from a state, collecting the actions in order.\<close>

fun ai_exec ::
  "AIProcessorOptions \<Rightarrow> event list \<Rightarrow> AIProcessor \<times> action list \<Rightarrow> (AIProcessor \<times> action list) option" where
  "ai_exec opts [] sa = Some sa"
| "ai_exec opts (ev # evs) (s, acts) =
     (case ai_step opts ev s of
        None \<Rightarrow> None
      | Some (s', new) \<Rightarrow> ai_exec opts evs (s', acts @ new))"

fun started_jobs :: "action list \<Rightarrow> PendingJob list" where
  "started_jobs [] = []"
| "started_jobs (RunJob job # acts) = job # started_jobs acts"
| "started_jobs (_ # acts) = started_jobs acts"

fun submitted_jobs :: "event list \<Rightarrow> PendingJob list" where
  "submitted_jobs [] = []"
| "submitted_jobs (Enqueue clock job # evs) = job # submitted_jobs evs"
| "submitted_jobs (_ # evs) = submitted_jobs evs"

section \<open>Print queue: \<open>PrinterQueue\<close>\<close>

subsection \<open>Jobs and the external print command\<close>

datatype PrintFormat = F4x6 | F2x6

datatype PrintStatus = Queued | Printing | Completed | Error

record PrintJob =
  filePath :: string
  format :: PrintFormat
  copies :: "int option"
  printer :: "string option"

record PrintJobState = PrintJob +
  ident :: string
  status :: PrintStatus
  createdAt :: nat
  attempts :: nat
  error :: "string option"

text \<open>
  \<open>queueRetries\<close> is a retry count, a natural number. \<open>platform\<close> is
  \<open>process.platform\<close>, which selects the command that is spawned.
\<close>

datatype platform = Win32 | Posix

record PrinterQueueOptions =
  defaultCopies :: int
  queueRetries :: nat
  targetPrinters :: "string list"
  platform :: platform

definition print_command :: "platform \<Rightarrow> string" where
  "print_command pf = (case pf of Win32 \<Rightarrow> ''powershell.exe'' | Posix \<Rightarrow> ''lp'')"

text \<open>
  What the spawned child reports first: the \<open>exit\<close> event with its code (\<open>null\<close> when
  a signal ended the process), or the \<open>error\<close> event with the error's \<open>code\<close> property
  and message. \<open>spawnCommand\<close> settles its promise on that event: \<open>Inr ()\<close> is
  \<open>resolve()\<close>, \<open>Inl m\<close> is \<open>reject\<close> with an error of message \<open>m\<close>.
\<close>

datatype child_event =
    Exit "int option"
  | SpawnError "string option" string

definition spawnCommand :: "string \<Rightarrow> child_event \<Rightarrow> string + unit" where
  "spawnCommand command ev =
     (case ev of
        Exit code \<Rightarrow>
          if code = Some 0 then Inr ()
          else Inl (command @ '' exited with code ''
                      @ (case code of None \<Rightarrow> ''null'' | Some c \<Rightarrow> show_int c))
      | SpawnError code message \<Rightarrow>
          if code = Some ''ENOENT'' then Inr () else Inl message)"

subsection \<open>The queue object and its worker\<close>

text \<open>
  The array \<open>queue\<close> and the map \<open>jobs\<close> hold references to the same job objects, and
  \<open>processJob\<close> mutates the object it was handed. The model keeps the objects in a
  store indexed by allocation order; \<open>pq_queue\<close> and \<open>jobs\<close> hold addresses.

  \<open>worker\<close> is where the asynchronous \<open>tick\<close> is suspended: nowhere (\<open>Idle\<close>), in
  \<open>processJob\<close> at \<open>await access\<close>, in \<open>processJob\<close> at the awaited print command, or
  at \<open>await this.processJob(job)\<close> with \<open>processJob\<close> already returned (\<open>Resuming\<close>).
\<close>

datatype worker = Idle | AwaitAccess nat | AwaitDispatch nat | Resuming

record PrinterQueue =
  heap :: "nat \<Rightarrow> PrintJobState"
  allocated :: nat
  pq_queue :: "nat list"
  jobs :: "string \<rightharpoonup> nat"
  processing :: bool
  worker :: worker

definition no_job :: PrintJobState where
  "no_job = \<lparr>filePath = [], format = F4x6, copies = None, printer = None, ident = [],
             status = Queued, createdAt = 0, attempts = 0, error = None\<rparr>"

definition pq_init :: PrinterQueue where
  "pq_init = \<lparr>heap = (\<lambda>a. no_job), allocated = 0, pq_queue = [], jobs = Map.empty,
              processing = False, worker = Idle\<rparr>"

definition update_job :: "nat \<Rightarrow> (PrintJobState \<Rightarrow> PrintJobState) \<Rightarrow> PrinterQueue \<Rightarrow> PrinterQueue" where
  "update_job a f s = s\<lparr>heap := (heap s)(a := f (heap s a))\<rparr>"

text \<open>
  \<open>drain\<close> is the head of the \<open>while\<close> loop of \<open>tick\<close>, run up to the first \<open>await\<close>
  of \<open>processJob\<close>: an empty queue ends the loop and clears \<open>processing\<close>; otherwise
  the head is shifted and marked \<open>printing\<close>.
\<close>

definition drain :: "PrinterQueue \<Rightarrow> PrinterQueue" where
  "drain s =
     (case pq_queue s of
        [] \<Rightarrow> s\<lparr>processing := False, worker := Idle\<rparr>
      | a # rest \<Rightarrow>
          update_job a (\<lambda>j. j\<lparr>status := Printing\<rparr>) (s\<lparr>pq_queue := rest, worker := AwaitAccess a\<rparr>))"

definition tick :: "PrinterQueue \<Rightarrow> PrinterQueue" where
  "tick s = (if processing s then s else drain (s\<lparr>processing := True\<rparr>))"

definition pq_enqueue ::
  "PrinterQueueOptions \<Rightarrow> PrintJob \<Rightarrow> string \<Rightarrow> nat \<Rightarrow> PrinterQueue \<Rightarrow> PrinterQueue" where
  "pq_enqueue opts job new_id clock s =
     (let a = allocated s;
          state = \<lparr>filePath = filePath job, format = format job,
                   copies = (case copies job of None \<Rightarrow> Some (defaultCopies opts) | Some c \<Rightarrow> Some c),
                   printer = (case printer job of
                                None \<Rightarrow> (case targetPrinters opts of [] \<Rightarrow> None | p # ps \<Rightarrow> Some p)
                              | Some p \<Rightarrow> Some p),
                   ident = new_id, status = Queued, createdAt = clock, attempts = 0,
                   error = None\<rparr>
      in tick (s\<lparr>heap := (heap s)(a := state), allocated := a + 1,
                 jobs := (jobs s)(new_id \<mapsto> a), pq_queue := pq_queue s @ [a]\<rparr>))"

definition getStatus :: "string \<Rightarrow> PrinterQueue \<Rightarrow> PrintJobState option" where
  "getStatus i s = map_option (heap s) (jobs s i)"

text \<open>\<open>processJob\<close> resumed after \<open>await access(job.filePath)\<close>.\<close>

definition access_done :: "bool \<Rightarrow> PrinterQueue \<Rightarrow> PrinterQueue option" where
  "access_done file_exists s =
     (case worker s of
        AwaitAccess a \<Rightarrow>
          Some (if file_exists then s\<lparr>worker := AwaitDispatch a\<rparr>
                else update_job a (\<lambda>j. j\<lparr>status := Error, error := Some ''File not found''\<rparr>)
                       (s\<lparr>worker := Resuming\<rparr>))
      | _ \<Rightarrow> None)"

text \<open>\<open>processJob\<close> resumed after the awaited print command.\<close>

definition dispatch_done :: "PrinterQueueOptions \<Rightarrow> child_event \<Rightarrow> PrinterQueue \<Rightarrow> PrinterQueue option" where
  "dispatch_done opts ev s =
     (case worker s of
        AwaitDispatch a \<Rightarrow>
          Some (case spawnCommand (print_command (platform opts)) ev of
                  Inr u \<Rightarrow>
                    update_job a (\<lambda>j. j\<lparr>status := Completed, error := None\<rparr>)
                      (s\<lparr>worker := Resuming\<rparr>)
                | Inl message \<Rightarrow>
                    (let n = attempts (heap s a) + 1 in
                     if n \<le> queueRetries opts then
                       update_job a (\<lambda>j. j\<lparr>attempts := n, error := Some message, status := Queued\<rparr>)
                         (s\<lparr>pq_queue := pq_queue s @ [a], worker := Resuming\<rparr>)
                     else
                       update_job a (\<lambda>j. j\<lparr>attempts := n, error := Some message, status := Error\<rparr>)
                         (s\<lparr>worker := Resuming\<rparr>)))
      | _ \<Rightarrow> None)"

definition resume :: "PrinterQueue \<Rightarrow> PrinterQueue option" where
  "resume s = (if worker s = Resuming then Some (drain s) else None)"

datatype pq_event =
    PqEnqueue PrintJob string nat
  | AccessDone bool
  | DispatchDone child_event
  | Resume

fun pq_step :: "PrinterQueueOptions \<Rightarrow> pq_event \<Rightarrow> PrinterQueue \<Rightarrow> PrinterQueue option" where
  "pq_step opts (PqEnqueue job new_id clock) s = Some (pq_enqueue opts job new_id clock s)"
| "pq_step opts (AccessDone file_exists) s = access_done file_exists s"
| "pq_step opts (DispatchDone ev) s = dispatch_done opts ev s"
| "pq_step opts Resume s = resume s"

fun pq_exec :: "PrinterQueueOptions \<Rightarrow> pq_event list \<Rightarrow> PrinterQueue \<Rightarrow> PrinterQueue option" where
  "pq_exec opts [] s = Some s"
| "pq_exec opts (ev # evs) s =
     (case pq_step opts ev s of None \<Rightarrow> None | Some s' \<Rightarrow> pq_exec opts evs s')"

subsection \<open>Observing a job along a run\<close>

text \<open>
  A step takes the job at address \<open>a\<close> from \<open>queued\<close> to \<open>printing\<close>. A job is created
  \<open>queued\<close>, and when \<open>enqueue\<close> finds the worker idle the same step sets it to
  \<open>printing\<close>: this step counts, since the store reads \<open>queued\<close> (the status of
  \<open>no_job\<close>) at an address not yet allocated. \<open>pq_entries\<close> counts these steps along a
  run.
\<close>

definition enters_printing :: "nat \<Rightarrow> PrinterQueue \<Rightarrow> PrinterQueue \<Rightarrow> bool" where
  "enters_printing a s s' \<longleftrightarrow> status (heap s a) = Queued \<and> status (heap s' a) = Printing"

fun pq_entries :: "PrinterQueueOptions \<Rightarrow> nat \<Rightarrow> pq_event list \<Rightarrow> PrinterQueue \<Rightarrow> nat" where
  "pq_entries opts a [] s = 0"
| "pq_entries opts a (ev # evs) s =
     (case pq_step opts ev s of
        None \<Rightarrow> 0
      | Some s' \<Rightarrow> (if enters_printing a s s' then 1 else 0) + pq_entries opts a evs s')"

definition dispatch_fails :: "PrinterQueueOptions \<Rightarrow> child_event \<Rightarrow> bool" where
  "dispatch_fails opts ev = (case spawnCommand (print_command (platform opts)) ev of Inl m \<Rightarrow> True | Inr u \<Rightarrow> False)"

text \<open>
  Along a run, the file of the job at \<open>a\<close> exists at each of its checks and each of its
  print commands fails; what other jobs meet is left open.
\<close>

definition answer_failing :: "PrinterQueueOptions \<Rightarrow> nat \<Rightarrow> pq_event \<Rightarrow> PrinterQueue \<Rightarrow> bool" where
  "answer_failing opts a ev s =
     (case ev of
        AccessDone file_exists \<Rightarrow> worker s = AwaitAccess a \<longrightarrow> file_exists
      | DispatchDone cev \<Rightarrow> worker s = AwaitDispatch a \<longrightarrow> dispatch_fails opts cev
      | _ \<Rightarrow> True)"

fun always_failing :: "PrinterQueueOptions \<Rightarrow> nat \<Rightarrow> pq_event list \<Rightarrow> PrinterQueue \<Rightarrow> bool" where
  "always_failing opts a [] s = True"
| "always_failing opts a (ev # evs) s =
     (answer_failing opts a ev s \<and>
      (case pq_step opts ev s of None \<Rightarrow> True | Some s' \<Rightarrow> always_failing opts a evs s'))"

text \<open>
  The worker left to itself: no further enqueue, and the outside world answers each
  await in turn. An answer holds a file-check result and a child event; the worker's
  state decides which of the two is asked for. \<open>responses\<close> are the events that a list
  of answers gives rise to, up to the point where the worker is idle.
\<close>

definition respond :: "bool \<times> child_event \<Rightarrow> PrinterQueue \<Rightarrow> pq_event option" where
  "respond answer s =
     (case worker s of
        Idle \<Rightarrow> None
      | AwaitAccess a \<Rightarrow> Some (AccessDone (fst answer))
      | AwaitDispatch a \<Rightarrow> Some (DispatchDone (snd answer))
      | Resuming \<Rightarrow> Some Resume)"

fun responses :: "PrinterQueueOptions \<Rightarrow> (bool \<times> child_event) list \<Rightarrow> PrinterQueue \<Rightarrow> pq_event list" where
  "responses opts [] s = []"
| "responses opts (answer # rest) s =
     (case respond answer s of
        None \<Rightarrow> []
      | Some ev \<Rightarrow>
          (case pq_step opts ev s of None \<Rightarrow> [] | Some s' \<Rightarrow> ev # responses opts rest s'))"

text \<open>
  A bound on the number of answers the worker needs to become idle: three for every
  round that a queued job can still have, and what is left of the round in progress.
\<close>

definition rounds_left :: "PrinterQueueOptions \<Rightarrow> PrintJobState \<Rightarrow> nat" where
  "rounds_left opts job = queueRetries opts + 1 - attempts job"

fun queue_load :: "PrinterQueueOptions \<Rightarrow> (nat \<Rightarrow> PrintJobState) \<Rightarrow> nat list \<Rightarrow> nat" where
  "queue_load opts h [] = 0"
| "queue_load opts h (a # q) = 3 * rounds_left opts (h a) + queue_load opts h q"

definition pq_measure :: "PrinterQueueOptions \<Rightarrow> PrinterQueue \<Rightarrow> nat" where
  "pq_measure opts s =
     queue_load opts (heap s) (pq_queue s) +
     (case worker s of
        Idle \<Rightarrow> 0
      | AwaitAccess a \<Rightarrow> 3 * rounds_left opts (heap s a)
      | AwaitDispatch a \<Rightarrow> 3 * rounds_left opts (heap s a) - 1
      | Resuming \<Rightarrow> 1)"

section \<open>Live-view broadcaster: \<open>CameraService\<close>\<close>

subsection \<open>State and operations\<close>

text \<open>
  Subscribers are the callbacks in the set \<open>liveViewClients\<close>, here numbers in insertion
  order. \<open>liveInterval\<close> says whether the field holds a timer handle. The remaining
  fields are the runtime's: the interval timers that are armed, and the calls that are
  suspended on the driver (timer callbacks, \<open>getLatestFrame\<close> calls, \<open>capture\<close> calls).
  Subscriber callbacks are taken not to throw.
\<close>

record CameraService =
  latestFrame :: "buffer option"
  liveViewClients :: "nat list"
  liveInterval :: bool
  liveViewEnabled :: bool
  lastCapture :: "nat option"
  armed_timers :: nat
  ticks_waiting :: nat
  latest_waiting :: nat
  captures_waiting :: nat

text \<open>What the service does to the outside: calls on the driver and frames pushed to callbacks.\<close>

datatype cam_effect =
    FetchFrame
  | DriverCapture
  | Push nat buffer

datatype 'a outcome = Returned 'a | Suspended

definition cam_init :: CameraService where
  "cam_init = \<lparr>latestFrame = None, liveViewClients = [], liveInterval = False,
               liveViewEnabled = False, lastCapture = None, armed_timers = 0,
               ticks_waiting = 0, latest_waiting = 0, captures_waiting = 0\<rparr>"







text \<open>
  \<open>getLatestFrame\<close> up to its \<open>await\<close>: with a cached frame it returns at once,
  otherwise it calls the driver and suspends. \<open>getLatestFrame_resume\<close> is the rest,
  given what the driver answered.
\<close>

definition getLatestFrame ::
  "CameraService \<Rightarrow> buffer option outcome \<times> CameraService \<times> cam_effect list" where
  "getLatestFrame s =
     (case latestFrame s of
        Some frame \<Rightarrow> (Returned (Some frame), s, [])
      | None \<Rightarrow> (Suspended, s\<lparr>latest_waiting := latest_waiting s + 1\<rparr>, [FetchFrame]))"

definition getLatestFrame_resume ::
  "string + buffer \<Rightarrow> CameraService \<Rightarrow> (buffer option \<times> CameraService) option" where
  "getLatestFrame_resume r s =
     (if latest_waiting s = 0 then None
      else Some (case r of
                   Inr buf \<Rightarrow>
                     (Some buf, s\<lparr>latestFrame := Some buf, latest_waiting := latest_waiting s - 1\<rparr>)
                 | Inl err \<Rightarrow> (None, s\<lparr>latest_waiting := latest_waiting s - 1\<rparr>)))"

definition capture :: "CameraService \<Rightarrow> CameraService \<times> cam_effect list" where
  "capture s = (s\<lparr>captures_waiting := captures_waiting s + 1\<rparr>, [DriverCapture])"


subsection \<open>Runs of the broadcaster\<close>





subsection \<open>The WebSocket connection handler that drives the broadcaster\<close>











section \<open>Invariants and sample inputs\<close>

text \<open>The recursive equation of \<open>decimal_digits\<close> is unfolded by hand where needed.\<close>

declare decimal_digits.simps [simp del]


text \<open>Sample inputs for the generation queue.\<close>

definition sample_opts :: "nat \<Rightarrow> AIProcessorOptions" where
  "sample_opts n =
     \<lparr>processedDir = ''processed'', maxParallelJobs = n, provider = ''nano-banana'',
      defaultStyle = Freestyle\<rparr>"

definition accept_all :: "buffer \<Rightarrow> sharp_op list \<Rightarrow> string + buffer" where
  "accept_all src ops = Inr src"

definition join_slash :: "string \<Rightarrow> string \<Rightarrow> string" where
  "join_slash dir file = dir @ ''/'' @ file"

definition read_ok :: "string \<Rightarrow> string + buffer" where
  "read_ok path = Inr ''bytes''"

definition write_ok :: "string \<Rightarrow> buffer \<Rightarrow> string option" where
  "write_ok path buf = None"

definition sample_uuid :: "nat \<Rightarrow> string" where
  "sample_uuid i = ''uuid''"

definition same_text :: "string \<Rightarrow> string" where
  "same_text t = t"

definition sample_env :: env where
  "sample_env =
     \<lparr>decode64 = same_text, encode64 = same_text, path_join = join_slash, readFile = read_ok,
      toBuffer = accept_all, writeFile = write_ok, randomUUID = sample_uuid, now = 9\<rparr>"

definition request_without_source :: AIJobRequest where
  "request_without_source =
     \<lparr>sourcePath = None, base64 = None, prompt = None, style = Some Cartoon,
      intensity = None, variations = None\<rparr>"

definition request_out_of_range :: AIJobRequest where
  "request_out_of_range =
     \<lparr>sourcePath = Some ''capture.jpg'', base64 = None, prompt = Some ''hello'',
      style = Some Cinematic, intensity = Some (Fin 2), variations = Some (Fin 10)\<rparr>"

definition request_below_range :: AIJobRequest where
  "request_below_range =
     \<lparr>sourcePath = Some ''capture.jpg'', base64 = None, prompt = None,
      style = None, intensity = Some (Fin (- 1)), variations = Some (Fin 0)\<rparr>"

definition request_fractional :: AIJobRequest where
  "request_fractional =
     \<lparr>sourcePath = Some ''capture.jpg'', base64 = None, prompt = None,
      style = None, intensity = None, variations = Some (Fin (5 / 2))\<rparr>"

definition request_not_a_number :: AIJobRequest where
  "request_not_a_number =
     \<lparr>sourcePath = Some ''capture.jpg'', base64 = None, prompt = None,
      style = None, intensity = Some NaN, variations = Some NaN\<rparr>"

text \<open>The number of output paths of a job that returned a result.\<close>

definition count_outputs :: "(string + AIJobResult) option \<Rightarrow> nat option" where
  "count_outputs r = (case r of Some (Inr res) \<Rightarrow> Some (length (outputs res)) | _ \<Rightarrow> None)"

text \<open>How often the loop of \<open>generate\<close> runs for a bound that is not \<open>+\<infinity>\<close>.\<close>

definition iterations :: "number \<Rightarrow> nat" where
  "iterations v = (case v of Fin r \<Rightarrow> nat \<lceil>r\<rceil> | _ \<Rightarrow> 0)"

definition job_a :: PendingJob where
  "job_a = \<lparr>job_id = 0, request = request_without_source\<rparr>"

definition job_b :: PendingJob where
  "job_b = \<lparr>job_id = 1, request = request_out_of_range\<rparr>"

text \<open>
  The print queue. \<open>current a s\<close>: the worker is inside \<open>processJob\<close> for the job at
  address \<open>a\<close>. \<open>settled a s\<close>: the job exists and is neither queued nor being
  processed. \<open>pq_inv\<close> is the invariant of the queue.
\<close>

definition current :: "nat \<Rightarrow> PrinterQueue \<Rightarrow> bool" where
  "current a s \<longleftrightarrow> worker s = AwaitAccess a \<or> worker s = AwaitDispatch a"

definition settled :: "nat \<Rightarrow> PrinterQueue \<Rightarrow> bool" where
  "settled a s \<longleftrightarrow> a < allocated s \<and> a \<notin> set (pq_queue s) \<and> \<not> current a s"

definition pq_inv :: "PrinterQueueOptions \<Rightarrow> PrinterQueue \<Rightarrow> bool" where
  "pq_inv opts s \<longleftrightarrow>
     (\<forall>a. attempts (heap s a) \<le> queueRetries opts + 1) \<and>
     (\<forall>a. queueRetries opts < attempts (heap s a) \<longrightarrow> status (heap s a) = Error) \<and>
     (\<forall>a. a \<in> set (pq_queue s) \<or> current a s \<longrightarrow>
          attempts (heap s a) \<le> queueRetries opts \<and> a < allocated s) \<and>
     (\<forall>a. current a s \<longrightarrow> a \<notin> set (pq_queue s) \<and> status (heap s a) = Printing) \<and>
     (\<forall>a. a \<in> set (pq_queue s) \<longrightarrow> status (heap s a) = Queued) \<and>
     distinct (pq_queue s) \<and>
     (\<forall>a. allocated s \<le> a \<longrightarrow> heap s a = no_job) \<and>
     (processing s \<longleftrightarrow> worker s \<noteq> Idle) \<and>
     (worker s = Idle \<longrightarrow> pq_queue s = [])"

text \<open>
  How far the job at \<open>a\<close> has come after \<open>n\<close> entries into \<open>printing\<close>, when all its
  print commands fail: \<open>n\<close> counts its attempts and the round in progress, and the job
  is queued, or being processed, or has ended in \<open>error\<close> with all retries used.
\<close>

definition job_progress :: "PrinterQueueOptions \<Rightarrow> nat \<Rightarrow> PrinterQueue \<Rightarrow> nat \<Rightarrow> bool" where
  "job_progress opts a s n \<longleftrightarrow>
     (if a < allocated s
      then n = attempts (heap s a) + (if current a s then 1 else 0) \<and>
           (a \<in> set (pq_queue s) \<or> current a s \<or>
            status (heap s a) = Error \<and> attempts (heap s a) = queueRetries opts + 1)
      else n = 0)"

text \<open>What a status query shows of the job at an address: status, error, attempts.\<close>

definition snapshot :: "nat \<Rightarrow> PrinterQueue \<Rightarrow> PrintStatus \<times> string option \<times> nat" where
  "snapshot a s = (status (heap s a), error (heap s a), attempts (heap s a))"

text \<open>Sample inputs for the print queue.\<close>

definition sample_printer_opts :: PrinterQueueOptions where
  "sample_printer_opts =
     \<lparr>defaultCopies = 1, queueRetries = 2, targetPrinters = [''HiTi''], platform = Posix\<rparr>"

definition sample_print_job :: PrintJob where
  "sample_print_job = \<lparr>filePath = ''strip.jpg'', format = F2x6, copies = Some 3, printer = None\<rparr>"

definition second_print_job :: PrintJob where
  "second_print_job = \<lparr>filePath = ''collage.jpg'', format = F4x6, copies = None, printer = None\<rparr>"

definition two_jobs_enqueued :: "pq_event list" where
  "two_jobs_enqueued =
     [PqEnqueue sample_print_job ''print-1'' 7, PqEnqueue second_print_job ''print-2'' 8]"

definition two_jobs_waiting :: PrinterQueue where
  "two_jobs_waiting =
     pq_enqueue sample_printer_opts second_print_job ''print-2'' 8
       (pq_enqueue sample_printer_opts sample_print_job ''print-1'' 7 pq_init)"

definition failing_answers :: "(bool \<times> child_event) list" where
  "failing_answers = replicate 18 (True, Exit (Some 1))"

definition sample_checking :: PrinterQueue where
  "sample_checking = pq_enqueue sample_printer_opts sample_print_job ''print-1'' 7 pq_init"

definition sample_dispatching :: PrinterQueue where
  "sample_dispatching = sample_checking\<lparr>worker := AwaitDispatch 0\<rparr>"


text \<open>Sample states of the broadcaster.\<close>

definition cam_with_frame :: CameraService where
  "cam_with_frame = cam_init\<lparr>latestFrame := Some ''stale frame''\<rparr>"

section \<open>Generation queue: proofs\<close>

subsection \<open>The counter and the limit\<close>









subsection \<open>Dispatch order\<close>

lemma started_jobs_append: "started_jobs (a @ b) = started_jobs a @ started_jobs b"
  by (induction a rule: started_jobs.induct) auto

lemma processQueue_fifo:
  "processQueue opts clock s = (s', new) \<Longrightarrow> started_jobs new @ queue s' = queue s"
  by (auto simp: processQueue_def split: if_splits list.splits)

lemma ai_step_fifo:
  "ai_step opts ev s = Some (s', new) \<Longrightarrow> started_jobs new @ queue s' = queue s @ submitted_jobs [ev]"
  by (cases ev)
     (auto simp: enqueue_def finish_def immediate_def dest!: processQueue_fifo
           split: option.splits if_splits sum.splits)

lemma submitted_jobs_Cons: "submitted_jobs (ev # evs) = submitted_jobs [ev] @ submitted_jobs evs"
  by (cases ev) auto

lemma ai_exec_fifo:
  "ai_exec opts evs (s, acts) = Some (s', acts') \<Longrightarrow>
   started_jobs acts' @ queue s' = started_jobs acts @ queue s @ submitted_jobs evs"
proof (induction evs arbitrary: s acts)
  case Nil
  then show ?case by simp
next
  case (Cons ev evs)
  from Cons.prems obtain s1 new where st: "ai_step opts ev s = Some (s1, new)"
    and ex: "ai_exec opts evs (s1, acts @ new) = Some (s', acts')"
    by (auto split: option.splits)
  from Cons.IH[OF ex] ai_step_fifo[OF st] show ?case
    by (simp add: started_jobs_append submitted_jobs_Cons[of ev evs])
qed

text \<open>
  Claim C7. After any interleaving of enqueue calls, completions and scheduled
  callbacks, the jobs handed to \<open>runJob\<close> so far, in the order in which they were
  started, followed by the jobs still waiting, in queue order, are exactly the
  submitted jobs in submission order. So a job submitted before another is started
  before it, and of two waiting jobs the earlier one is the next to be admitted.
\<close>

theorem dispatch_order_is_submission_order:
  assumes "ai_exec opts evs (ai_init, []) = Some (s, acts)"
  shows "started_jobs acts @ queue s = submitted_jobs evs"
  using ai_exec_fifo[OF assms] by (simp add: ai_init_def)

lemma sample_run_drained:
  "ai_exec (sample_opts 1)
     [Enqueue 0 job_a, Enqueue 0 job_b, Finish 0 sample_env, Immediate 5] (ai_init, []) =
   Some (\<lparr>queue = [], activeJobs = 1, running = [(job_b, 5)], immediates = 0\<rparr>,
         [RunJob job_a, Reject 0 ''AI job missing source image'', RunJob job_b])"
  by (simp add: sample_opts_def ai_init_def enqueue_def processQueue_def finish_def job_a_def
        job_b_def generate_def truthy_def request_without_source_def immediate_def)

theorem dispatch_order_is_submission_order_witness:
  "ai_exec (sample_opts 1)
     [Enqueue 0 job_a, Enqueue 0 job_b, Finish 0 sample_env, Immediate 5] (ai_init, []) =
     Some (\<lparr>queue = [], activeJobs = 1, running = [(job_b, 5)], immediates = 0\<rparr>,
           [RunJob job_a, Reject 0 ''AI job missing source image'', RunJob job_b]) \<and>
   started_jobs [RunJob job_a, Reject 0 ''AI job missing source image'', RunJob job_b] @ [] =
     [job_a, job_b]"
  using dispatch_order_is_submission_order[OF sample_run_drained] sample_run_drained
  by simp

subsection \<open>Requests without a source image\<close>

text \<open>
  Claim C1, as stated, fails: with one free slot, enqueueing a request that has no source
  image starts it at once, and the counter goes from 0 to 1 on its behalf.
\<close>

theorem sourceless_request_takes_a_slot:
  "\<not> truthy (sourcePath (request job_a)) \<and> \<not> truthy (base64 (request job_a)) \<and>
   activeJobs ai_init = 0 \<and>
   ai_step (sample_opts 1) (Enqueue 0 job_a) ai_init =
     Some (\<lparr>queue = [], activeJobs = 1, running = [(job_a, 0)], immediates = 0\<rparr>, [RunJob job_a])"
  by (simp add: sample_opts_def ai_init_def enqueue_def processQueue_def job_a_def truthy_def
        request_without_source_def)

text \<open>
  Claim C1, amended. A request with neither a non-empty \<open>sourcePath\<close> nor a non-empty
  \<open>base64\<close> fails in \<open>generate\<close> with the message \<open>AI job missing source image\<close>,
  whatever the environment, before any file is read or written. The check is made
  inside the job, after admission: enqueued on an empty queue with a free slot the
  request is started and counted in \<open>activeJobs\<close>, and when its job finishes the
  caller's promise is rejected with that message, the counter is decremented and
  \<open>processQueue\<close> is scheduled again.
\<close>

theorem sourceless_request_rejected_after_admission:
  assumes "\<not> truthy (sourcePath (request job))" and "\<not> truthy (base64 (request job))"
  shows "generate opts e (request job) started = Some (Inl ''AI job missing source image'') \<and>
         (queue s = [] \<and> activeJobs s < int (maxParallelJobs opts) \<longrightarrow>
            activeJobs (fst (enqueue opts clock job s)) = activeJobs s + 1 \<and>
            running (fst (enqueue opts clock job s)) = running s @ [(job, clock)] \<and>
            queue (fst (enqueue opts clock job s)) = [] \<and>
            snd (enqueue opts clock job s) = [RunJob job]) \<and>
         (find (\<lambda>r. job_id (fst r) = j) (running s) = Some (job, started) \<longrightarrow>
            (\<exists>s'. finish opts j e s = Some (s', [Reject j ''AI job missing source image'']) \<and>
                  activeJobs s' = activeJobs s - 1 \<and>
                  immediates s' = immediates s + 1 \<and>
                  running s' = remove1 (job, started) (running s)))"
  using assms by (simp add: generate_def enqueue_def processQueue_def finish_def)

theorem sourceless_request_rejected_after_admission_witness:
  "generate (sample_opts 1) sample_env (request job_a) 0 = Some (Inl ''AI job missing source image'') \<and>
   activeJobs (fst (enqueue (sample_opts 1) 0 job_a ai_init)) = 1 \<and>
   snd (enqueue (sample_opts 1) 0 job_a ai_init) = [RunJob job_a] \<and>
   map_option snd (finish (sample_opts 1) 0 sample_env (fst (enqueue (sample_opts 1) 0 job_a ai_init))) =
     Some [Reject 0 ''AI job missing source image''] \<and>
   map_option (activeJobs \<circ> fst)
     (finish (sample_opts 1) 0 sample_env (fst (enqueue (sample_opts 1) 0 job_a ai_init))) = Some 0"
proof -
  let ?s1 = "fst (enqueue (sample_opts 1) 0 job_a ai_init)"
  have a: "\<not> truthy (sourcePath (request job_a))" and b: "\<not> truthy (base64 (request job_a))"
    by (simp_all add: job_a_def request_without_source_def truthy_def)
  have c: "queue ai_init = [] \<and> activeJobs ai_init < int (maxParallelJobs (sample_opts 1))"
    by (simp add: ai_init_def sample_opts_def)
  have d: "find (\<lambda>r. job_id (fst r) = 0) (running ?s1) = Some (job_a, 0)"
    by (simp add: enqueue_def processQueue_def ai_init_def sample_opts_def job_a_def)
  from sourceless_request_rejected_after_admission[OF a b, of "sample_opts 1" sample_env 0 ai_init 0 0] c
    sourceless_request_rejected_after_admission[OF a b, of "sample_opts 1" sample_env 0 ?s1 0 0] d
  show ?thesis by (auto simp: ai_init_def)
qed

subsection \<open>Clamping and the number of outputs\<close>

lemma double_0_7_nearest: "\<bar>double_0_7 - 7 / 10\<bar> < 1 / 2 ^ 54 \<and> 1 / 2 \<le> double_0_7 \<and> double_0_7 < 1"
  by (simp add: double_0_7_def)

lemma js_less_iterations: "v \<noteq> PosInf \<Longrightarrow> js_less (Fin (of_nat i)) v = (i < iterations v)"
proof (cases v)
  case (Fin r)
  have "(of_nat i < r) = (int i < \<lceil>r\<rceil>)" by (simp add: less_ceiling_iff)
  also have "\<dots> = (i < nat \<lceil>r\<rceil>)" by (simp add: zless_nat_eq_int_zless)
  finally show ?thesis using Fin by (simp add: iterations_def)
qed (simp_all add: iterations_def)

lemma generate_loop_returns:
  assumes "v \<noteq> PosInf"
  shows "\<exists>res. generate_loop opts e src st x p v i outs prevs = Some res \<and>
           (\<forall>os ps. res = Inr (os, ps) \<longrightarrow>
              length os = length outs + (iterations v - i) \<and>
              length ps = length prevs + (iterations v - i))"
proof (induction "iterations v - i" arbitrary: i outs prevs)
  case 0
  then have "\<not> js_less (Fin (of_nat i)) v"
    using assms by (simp add: js_less_iterations)
  with 0 show ?case by (simp add: generate_loop.simps)
next
  case (Suc n)
  then have less: "js_less (Fin (of_nat i)) v"
    using assms by (simp add: js_less_iterations)
  show ?case
  proof (cases "applyStyle e src st x i p")
    case (Inl err)
    with less show ?thesis by (simp add: generate_loop.simps)
  next
    case (Inr buf)
    let ?outputPath = "path_join e (processedDir opts)
        (randomUUID e i @ ''-'' @ toLowerCase (style_name st) @ ''-v'' @ show_nat (i + 1) @ ''.jpg'')"
    show ?thesis
    proof (cases "writeFile e ?outputPath buf")
      case (Some err)
      with less Inr show ?thesis by (simp add: generate_loop.simps)
    next
      case None
      from Suc.hyps(2) have n: "n = iterations v - (i + 1)" by simp
      from Suc.hyps(1)[OF n, of "outs @ [?outputPath]"
          "prevs @ [''data:image/jpeg;base64,'' @ encode64 e buf]"]
      obtain res where
        r: "generate_loop opts e src st x p v (i + 1) (outs @ [?outputPath])
              (prevs @ [''data:image/jpeg;base64,'' @ encode64 e buf]) = Some res"
        and l: "\<forall>os ps. res = Inr (os, ps) \<longrightarrow>
              length os = length (outs @ [?outputPath]) + (iterations v - (i + 1)) \<and>
              length ps = length (prevs @ [''data:image/jpeg;base64,'' @ encode64 e buf])
                            + (iterations v - (i + 1))"
        by blast
      have "generate_loop opts e src st x p v i outs prevs = Some res"
        using less Inr None r by (subst generate_loop.simps) simp
      moreover from Suc.hyps(2) have "iterations v - i = Suc (iterations v - (i + 1))" by simp
      ultimately show ?thesis using l by auto
    qed
  qed
qed

lemma effective_variations_cases:
  "effective_variations req =
     (case variations req of
        None \<Rightarrow> Fin 1
      | Some NaN \<Rightarrow> NaN
      | Some NegInf \<Rightarrow> Fin 1
      | Some PosInf \<Rightarrow> Fin 5
      | Some (Fin r) \<Rightarrow> Fin (if r < 1 then 1 else if 5 < r then 5 else r))"
  by (simp add: effective_variations_def js_min_def js_max_def split: option.splits number.splits)

lemma effective_intensity_cases:
  "effective_intensity req =
     (case intensity req of
        None \<Rightarrow> Fin double_0_7
      | Some NaN \<Rightarrow> NaN
      | Some NegInf \<Rightarrow> Fin 0
      | Some PosInf \<Rightarrow> Fin 1
      | Some (Fin x) \<Rightarrow> Fin (if x < 0 then 0 else if 1 < x then 1 else x))"
  using double_0_7_nearest
  by (auto simp: effective_intensity_def js_min_def js_max_def split: option.splits number.splits)

lemma generate_returns_counted:
  "\<exists>out. generate opts e req started = Some out \<and>
         (\<forall>res. out = Inr res \<longrightarrow>
            length (outputs res) = iterations (effective_variations req) \<and>
            length (previews res) = iterations (effective_variations req))"
proof -
  have fin: "effective_variations req \<noteq> PosInf"
    by (simp add: effective_variations_cases split: option.splits number.splits)
  have loop: "\<exists>res. generate_loop opts e src
                  (case style req of None \<Rightarrow> defaultStyle opts | Some s \<Rightarrow> s)
                  (effective_intensity req) (prompt req) (effective_variations req) 0 [] [] = Some res \<and>
           (\<forall>os ps. res = Inr (os, ps) \<longrightarrow>
              length os = iterations (effective_variations req) \<and>
              length ps = iterations (effective_variations req))" for src
    using generate_loop_returns[OF fin, of opts e src _ _ _ 0 "[]" "[]"] by simp
  show ?thesis
  proof (cases "\<not> truthy (sourcePath req) \<and> \<not> truthy (base64 req)")
    case True
    then show ?thesis by (simp add: generate_def)
  next
    case False
    show ?thesis
    proof (cases "loadSource e req")
      case (Inl err)
      with False show ?thesis by (auto simp: generate_def Let_def)
    next
      case (Inr src)
      from loop[of src] obtain res where
        r: "generate_loop opts e src (case style req of None \<Rightarrow> defaultStyle opts | Some s \<Rightarrow> s)
              (effective_intensity req) (prompt req) (effective_variations req) 0 [] [] = Some res"
        and l: "\<forall>os ps. res = Inr (os, ps) \<longrightarrow>
              length os = iterations (effective_variations req) \<and>
              length ps = iterations (effective_variations req)"
        by blast
      from False Inr r l show ?thesis
        by (cases res) (auto simp: generate_def Let_def)
    qed
  qed
qed

text \<open>
  Claim C6, as stated, fails for requested values that are numbers but not the numbers
  the claim has in mind. A requested count of 2.5 is within [1,5] and is kept, and the
  loop then writes three outputs, not 2.5 and not 2. A requested count or intensity of
  \<open>NaN\<close> is not clamped at all, and the job succeeds with no output.
\<close>

theorem fractional_count_gives_more_outputs:
  "variations request_fractional = Some (Fin (5 / 2)) \<and>
   effective_variations request_fractional = Fin (5 / 2) \<and>
   count_outputs (generate (sample_opts 1) sample_env request_fractional 0) = Some 3 \<and>
   effective_variations request_not_a_number = NaN \<and>
   effective_intensity request_not_a_number = NaN \<and>
   count_outputs (generate (sample_opts 1) sample_env request_not_a_number 0) = Some 0"
  by (simp add: request_fractional_def request_not_a_number_def effective_variations_def
        effective_intensity_def js_min_def js_max_def count_outputs_def generate_def Let_def
        truthy_def loadSource_def sample_env_def read_ok_def write_ok_def accept_all_def
        applyStyle_def generate_loop.simps)

text \<open>
  Claim C6, amended. The variation count used by \<open>generate\<close> is 1 when none is requested
  and otherwise, for a requested number other than \<open>NaN\<close>, that number clamped into
  [1,5] (0 becomes 1, 10 becomes 5); the intensity used is the double 0.7 when none is
  requested and otherwise, for a requested number other than \<open>NaN\<close>, that number
  clamped into [0,1] (-1 becomes 0, 2 becomes 1). Every job returns, and a job that
  succeeds returns as many output paths and as many previews as the clamped count
  rounded up to the next integer: the clamped count itself when the requested count is
  an integer.
\<close>

theorem variations_and_intensity_are_clamped:
  "(variations req = None \<longrightarrow> effective_variations req = Fin 1) \<and>
   (\<forall>r. variations req = Some (Fin r) \<longrightarrow>
        effective_variations req = Fin (if r < 1 then 1 else if 5 < r then 5 else r)) \<and>
   (variations req = Some PosInf \<longrightarrow> effective_variations req = Fin 5) \<and>
   (variations req = Some NegInf \<longrightarrow> effective_variations req = Fin 1) \<and>
   (intensity req = None \<longrightarrow> effective_intensity req = Fin double_0_7) \<and>
   (\<forall>x. intensity req = Some (Fin x) \<longrightarrow>
        effective_intensity req = Fin (if x < 0 then 0 else if 1 < x then 1 else x)) \<and>
   (intensity req = Some PosInf \<longrightarrow> effective_intensity req = Fin 1) \<and>
   (intensity req = Some NegInf \<longrightarrow> effective_intensity req = Fin 0) \<and>
   (\<exists>out. generate opts e req started = Some out) \<and>
   (\<forall>res r. generate opts e req started = Some (Inr res) \<and> effective_variations req = Fin r \<longrightarrow>
        int (length (outputs res)) = \<lceil>r\<rceil> \<and> int (length (previews res)) = \<lceil>r\<rceil>) \<and>
   (\<forall>res n. generate opts e req started = Some (Inr res) \<and> variations req = Some (Fin (of_int n)) \<longrightarrow>
        effective_variations req = Fin (of_nat (length (outputs res))) \<and>
        effective_variations req = Fin (of_nat (length (previews res))))"
proof -
  have clamp: "(variations req = None \<longrightarrow> effective_variations req = Fin 1) \<and>
   (\<forall>r. variations req = Some (Fin r) \<longrightarrow>
        effective_variations req = Fin (if r < 1 then 1 else if 5 < r then 5 else r)) \<and>
   (variations req = Some PosInf \<longrightarrow> effective_variations req = Fin 5) \<and>
   (variations req = Some NegInf \<longrightarrow> effective_variations req = Fin 1)"
    by (simp add: effective_variations_cases)
  have clamp': "(intensity req = None \<longrightarrow> effective_intensity req = Fin double_0_7) \<and>
   (\<forall>x. intensity req = Some (Fin x) \<longrightarrow>
        effective_intensity req = Fin (if x < 0 then 0 else if 1 < x then 1 else x)) \<and>
   (intensity req = Some PosInf \<longrightarrow> effective_intensity req = Fin 1) \<and>
   (intensity req = Some NegInf \<longrightarrow> effective_intensity req = Fin 0)"
    by (simp add: effective_intensity_cases)
  from generate_returns_counted[of opts e req started] obtain out where
    out: "generate opts e req started = Some out" and
    cnt: "\<forall>res. out = Inr res \<longrightarrow>
            length (outputs res) = iterations (effective_variations req) \<and>
            length (previews res) = iterations (effective_variations req)"
    by blast
  have ceil: "int (length (outputs res)) = \<lceil>r\<rceil> \<and> int (length (previews res)) = \<lceil>r\<rceil>"
    if "generate opts e req started = Some (Inr res)" "effective_variations req = Fin r" for res r
  proof -
    from that(2) clamp have "1 \<le> r"
      by (auto simp: effective_variations_cases split: option.splits number.splits if_splits)
    then have "1 \<le> \<lceil>r\<rceil>" by linarith
    with that out cnt show ?thesis by (simp add: iterations_def)
  qed
  have whole: "effective_variations req = Fin (of_nat (length (outputs res))) \<and>
        effective_variations req = Fin (of_nat (length (previews res)))"
    if g: "generate opts e req started = Some (Inr res)" and v: "variations req = Some (Fin (of_int n))"
    for res n
  proof -
    let ?m = "if n < 1 then 1 else if 5 < n then 5 else n"
    from v have ev: "effective_variations req = Fin (of_int ?m)"
      by (simp add: effective_variations_cases)
    from ceil[OF g ev] have "int (length (outputs res)) = ?m" "int (length (previews res)) = ?m"
      by simp_all
    then have "(of_nat (length (outputs res)) :: rat) = of_int ?m"
      and "(of_nat (length (previews res)) :: rat) = of_int ?m"
      by (metis of_int_of_nat_eq)+
    with ev show ?thesis by simp
  qed
  from clamp clamp' out ceil whole show ?thesis by blast
qed

lemma sample_generate_succeeds:
  "count_outputs (generate (sample_opts 1) sample_env request_out_of_range 0) = Some 5"
  by (simp add: count_outputs_def generate_def Let_def truthy_def request_out_of_range_def
        loadSource_def sample_env_def read_ok_def write_ok_def accept_all_def applyStyle_def
        effective_variations_def effective_intensity_def js_min_def js_max_def
        generate_loop.simps)

theorem variations_and_intensity_are_clamped_witness:
  "variations request_out_of_range = Some (Fin 10) \<and>
   effective_variations request_out_of_range = Fin 5 \<and>
   intensity request_out_of_range = Some (Fin 2) \<and>
   effective_intensity request_out_of_range = Fin 1 \<and>
   count_outputs (generate (sample_opts 1) sample_env request_out_of_range 0) = Some 5 \<and>
   variations request_below_range = Some (Fin 0) \<and>
   effective_variations request_below_range = Fin 1 \<and>
   intensity request_below_range = Some (Fin (- 1)) \<and>
   effective_intensity request_below_range = Fin 0"
proof -
  have v: "variations request_out_of_range = Some (Fin 10)"
    and x: "intensity request_out_of_range = Some (Fin 2)"
    by (simp_all add: request_out_of_range_def)
  have v': "variations request_below_range = Some (Fin 0)"
    and x': "intensity request_below_range = Some (Fin (- 1))"
    by (simp_all add: request_below_range_def)
  from variations_and_intensity_are_clamped[of request_out_of_range "sample_opts 1" sample_env 0]
    variations_and_intensity_are_clamped[of request_below_range "sample_opts 1" sample_env 0]
    v x v' x' sample_generate_succeeds
  show ?thesis by simp
qed

section \<open>Print queue: proofs\<close>

subsection \<open>The invariant\<close>

lemma pq_inv_init: "pq_inv opts pq_init"
  by (simp add: pq_inv_def pq_init_def current_def no_job_def)

lemma drain_inv:
  assumes "pq_inv opts (s\<lparr>worker := Resuming\<rparr>)" and "processing s"
  shows "pq_inv opts (drain s)"
  using assms
  by (cases "pq_queue s")
     (auto simp: pq_inv_def drain_def update_job_def current_def no_job_def)

lemma enqueue_inv:
  assumes "pq_inv opts s"
  shows "pq_inv opts (pq_enqueue opts job i clock s)"
proof (cases "processing s")
  case True
  with assms show ?thesis
    by (auto simp: pq_enqueue_def tick_def Let_def pq_inv_def current_def no_job_def)
next
  case False
  let ?state = "\<lparr>filePath = filePath job, format = format job,
                   copies = (case copies job of None \<Rightarrow> Some (defaultCopies opts) | Some c \<Rightarrow> Some c),
                   printer = (case printer job of
                                None \<Rightarrow> (case targetPrinters opts of [] \<Rightarrow> None | p # ps \<Rightarrow> Some p)
                              | Some p \<Rightarrow> Some p),
                   ident = i, status = Queued, createdAt = clock, attempts = 0,
                   error = None\<rparr>"
  let ?s1 = "s\<lparr>heap := (heap s)(allocated s := ?state), allocated := allocated s + 1,
                 jobs := (jobs s)(i \<mapsto> allocated s), pq_queue := pq_queue s @ [allocated s],
                 processing := True\<rparr>"
  from assms False have "pq_inv opts (?s1\<lparr>worker := Resuming\<rparr>)"
    by (auto simp: pq_inv_def current_def no_job_def)
  then have "pq_inv opts (drain ?s1)"
    by (rule drain_inv) simp
  with False show ?thesis
    by (simp add: pq_enqueue_def tick_def Let_def)
qed

lemma access_done_inv:
  assumes "pq_inv opts s" and "access_done ok s = Some s'"
  shows "pq_inv opts s'"
  using assms
  by (auto simp: access_done_def pq_inv_def current_def update_job_def no_job_def
           split: worker.splits if_splits)

lemma dispatch_done_inv:
  assumes "pq_inv opts s" and "dispatch_done opts ev s = Some s'"
  shows "pq_inv opts s'"
  using assms
  by (auto simp: dispatch_done_def pq_inv_def current_def update_job_def no_job_def Let_def
           split: worker.splits if_splits sum.splits)

lemma resume_inv:
  assumes "pq_inv opts s" and "resume s = Some s'"
  shows "pq_inv opts s'"
proof -
  from assms(2) have w: "worker s = Resuming" and s': "s' = drain s"
    by (auto simp: resume_def split: if_splits)
  from assms(1) w have "processing s" by (simp add: pq_inv_def)
  moreover from w have "s\<lparr>worker := Resuming\<rparr> = s" by simp
  ultimately show ?thesis using drain_inv[of opts s] assms(1) s' by simp
qed

lemma pq_step_inv: "pq_step opts ev s = Some s' \<Longrightarrow> pq_inv opts s \<Longrightarrow> pq_inv opts s'"
  by (cases ev) (auto intro: enqueue_inv access_done_inv dispatch_done_inv resume_inv)

lemma pq_exec_inv: "pq_exec opts evs s = Some s' \<Longrightarrow> pq_inv opts s \<Longrightarrow> pq_inv opts s'"
  by (induction evs arbitrary: s) (auto split: option.splits dest: pq_step_inv)

lemma pq_reachable_inv: "pq_exec opts evs pq_init = Some s \<Longrightarrow> pq_inv opts s"
  by (rule pq_exec_inv[OF _ pq_inv_init])

lemma printing_while_checked:
  "pq_exec opts evs pq_init = Some s \<Longrightarrow> worker s = AwaitAccess a \<Longrightarrow> status (heap s a) = Printing"
  using pq_reachable_inv[of opts evs s] by (simp add: pq_inv_def current_def)

subsection \<open>Settled jobs stay as they are\<close>

lemma drain_settled:
  "settled a s \<Longrightarrow> settled a (drain s) \<and> heap (drain s) a = heap s a"
  by (cases "pq_queue s") (auto simp: settled_def drain_def update_job_def current_def)

lemma pq_step_settled:
  assumes "pq_step opts ev s = Some s'" and "settled a s"
  shows "settled a s' \<and> heap s' a = heap s a"
proof (cases ev)
  case (PqEnqueue job i clock)
  let ?s1 = "s\<lparr>heap := (heap s)(allocated s := \<lparr>filePath = filePath job, format = format job,
                   copies = (case copies job of None \<Rightarrow> Some (defaultCopies opts) | Some c \<Rightarrow> Some c),
                   printer = (case printer job of
                                None \<Rightarrow> (case targetPrinters opts of [] \<Rightarrow> None | p # ps \<Rightarrow> Some p)
                              | Some p \<Rightarrow> Some p),
                   ident = i, status = Queued, createdAt = clock, attempts = 0,
                   error = None\<rparr>), allocated := allocated s + 1,
                 jobs := (jobs s)(i \<mapsto> allocated s), pq_queue := pq_queue s @ [allocated s]\<rparr>"
  from assms(2) have 1: "settled a ?s1" and 2: "heap ?s1 a = heap s a"
    by (auto simp: settled_def current_def)
  have 3: "settled a (?s1\<lparr>processing := True\<rparr>)" and 4: "heap (?s1\<lparr>processing := True\<rparr>) a = heap s a"
    using 1 2 by (auto simp: settled_def current_def)
  from assms(1) PqEnqueue have "s' = tick ?s1" by (simp add: pq_enqueue_def Let_def)
  then show ?thesis
    using 1 2 drain_settled[OF 3] 4 by (auto simp: tick_def)
next
  case (AccessDone ok)
  with assms show ?thesis
    by (auto simp: access_done_def settled_def current_def update_job_def
             split: worker.splits if_splits)
next
  case (DispatchDone cev)
  with assms show ?thesis
    by (auto simp: dispatch_done_def settled_def current_def update_job_def Let_def
             split: worker.splits if_splits sum.splits)
next
  case Resume
  with assms drain_settled[of a s] show ?thesis
    by (auto simp: resume_def split: if_splits)
qed

lemma pq_exec_settled:
  "pq_exec opts evs s = Some s' \<Longrightarrow> settled a s \<Longrightarrow> settled a s' \<and> heap s' a = heap s a"
proof (induction evs arbitrary: s)
  case Nil
  then show ?case by simp
next
  case (Cons ev evs)
  from Cons.prems(1) obtain s1 where st: "pq_step opts ev s = Some s1"
    and ex: "pq_exec opts evs s1 = Some s'"
    by (auto split: option.splits)
  from pq_step_settled[OF st Cons.prems(2)] Cons.IH[OF ex] show ?case by simp
qed

lemma settled_stays:
  assumes "settled a s" and "pq_exec opts evs s = Some s'"
  shows "heap s' a = heap s a \<and> a \<notin> set (pq_queue s') \<and> worker s' \<noteq> AwaitAccess a \<and>
         worker s' \<noteq> AwaitDispatch a"
  using pq_exec_settled[OF assms(2,1)] by (auto simp: settled_def current_def)

subsection \<open>Runs\<close>

lemma pq_exec_append:
  "pq_exec opts (xs @ ys) s = (case pq_exec opts xs s of None \<Rightarrow> None | Some s' \<Rightarrow> pq_exec opts ys s')"
  by (induction xs arbitrary: s) (auto split: option.splits)

lemma pq_entries_append:
  "pq_exec opts xs s = Some s' \<Longrightarrow>
   pq_entries opts a (xs @ ys) s = pq_entries opts a xs s + pq_entries opts a ys s'"
  by (induction xs arbitrary: s) (auto split: option.splits)

lemma always_failing_append:
  "pq_exec opts xs s = Some s' \<Longrightarrow>
   always_failing opts a (xs @ ys) s = (always_failing opts a xs s \<and> always_failing opts a ys s')"
  by (induction xs arbitrary: s) (auto split: option.splits)

lemma pq_step_allocated: "pq_step opts ev s = Some s' \<Longrightarrow> allocated s \<le> allocated s'"
  by (cases ev)
     (auto simp: pq_enqueue_def tick_def drain_def update_job_def access_done_def
        dispatch_done_def resume_def Let_def
        split: worker.splits if_splits sum.splits list.splits)

lemma pq_exec_allocated: "pq_exec opts evs s = Some s' \<Longrightarrow> allocated s \<le> allocated s'"
proof (induction evs arbitrary: s)
  case Nil
  then show ?case by simp
next
  case (Cons ev evs)
  from Cons.prems obtain s1 where st: "pq_step opts ev s = Some s1"
    and ex: "pq_exec opts evs s1 = Some s'"
    by (auto split: option.splits)
  from pq_step_allocated[OF st] Cons.IH[OF ex] show ?case by simp
qed

subsection \<open>A job whose print command always fails\<close>

lemma unallocated_queued: "pq_inv opts s \<Longrightarrow> \<not> a < allocated s \<Longrightarrow> status (heap s a) = Queued"
  by (simp add: pq_inv_def no_job_def)

lemma drain_progress:
  assumes "pq_inv opts (s\<lparr>worker := Resuming\<rparr>)" and "job_progress opts a (s\<lparr>worker := Resuming\<rparr>) n"
  shows "job_progress opts a (drain s) (n + (if enters_printing a s (drain s) then 1 else 0))"
proof (cases "a < allocated s")
  case True
  with assms show ?thesis
    by (cases "pq_queue s")
       (auto simp: pq_inv_def drain_def update_job_def current_def job_progress_def
          enters_printing_def)
next
  case False
  with assms(1) have "status (heap s a) = Queued" "a \<notin> set (pq_queue s)"
    using unallocated_queued[of opts "s\<lparr>worker := Resuming\<rparr>" a]
    by (auto simp: pq_inv_def)
  with False assms(2) show ?thesis
    by (cases "pq_queue s")
       (auto simp: drain_def update_job_def current_def job_progress_def enters_printing_def)
qed

lemma enqueue_progress:
  assumes inv: "pq_inv opts s" and pr: "job_progress opts a s n"
  shows "job_progress opts a (pq_enqueue opts job i clock s)
           (n + (if enters_printing a s (pq_enqueue opts job i clock s) then 1 else 0))"
proof (cases "processing s")
  case True
  from inv have fresh: "status (heap s (allocated s)) = Queued"
    by (rule unallocated_queued) simp
  from inv True pr fresh show ?thesis
    by (auto simp: pq_enqueue_def tick_def Let_def pq_inv_def current_def job_progress_def
          enters_printing_def split: if_splits)
next
  case False
  let ?state = "\<lparr>filePath = filePath job, format = format job,
                   copies = (case copies job of None \<Rightarrow> Some (defaultCopies opts) | Some c \<Rightarrow> Some c),
                   printer = (case printer job of
                                None \<Rightarrow> (case targetPrinters opts of [] \<Rightarrow> None | p # ps \<Rightarrow> Some p)
                              | Some p \<Rightarrow> Some p),
                   ident = i, status = Queued, createdAt = clock, attempts = 0,
                   error = None\<rparr>"
  from inv False have idle: "worker s = Idle" and empty: "pq_queue s = []"
    by (auto simp: pq_inv_def)
  from inv have fresh: "status (heap s (allocated s)) = Queued"
    by (rule unallocated_queued) simp
  from False idle empty have eq: "pq_enqueue opts job i clock s =
      s\<lparr>heap := (heap s)(allocated s := ?state\<lparr>status := Printing\<rparr>), allocated := allocated s + 1,
        jobs := (jobs s)(i \<mapsto> allocated s), pq_queue := [], processing := True,
        worker := AwaitAccess (allocated s)\<rparr>"
    by (simp add: pq_enqueue_def tick_def drain_def update_job_def Let_def)
  from pr idle empty fresh show ?thesis
    unfolding eq
    by (auto simp: job_progress_def current_def enters_printing_def split: if_splits)
qed

lemma access_done_progress:
  assumes "pq_inv opts s" and "job_progress opts a s n" and "access_done ok s = Some s'"
    and "answer_failing opts a (AccessDone ok) s"
  shows "job_progress opts a s' (n + (if enters_printing a s s' then 1 else 0))"
  using assms
  by (auto simp: access_done_def pq_inv_def current_def update_job_def job_progress_def
        enters_printing_def answer_failing_def split: worker.splits if_splits)

lemma dispatch_done_progress:
  assumes "pq_inv opts s" and "job_progress opts a s n" and "dispatch_done opts ev s = Some s'"
    and "answer_failing opts a (DispatchDone ev) s"
  shows "job_progress opts a s' (n + (if enters_printing a s s' then 1 else 0))"
  using assms
  by (auto simp: dispatch_done_def pq_inv_def current_def update_job_def job_progress_def
        enters_printing_def answer_failing_def dispatch_fails_def Let_def
        split: worker.splits if_splits sum.splits)

lemma resume_progress:
  assumes inv: "pq_inv opts s" and pr: "job_progress opts a s n" and r: "resume s = Some s'"
  shows "job_progress opts a s' (n + (if enters_printing a s s' then 1 else 0))"
proof -
  from r have w: "worker s = Resuming" and s': "s' = drain s"
    by (auto simp: resume_def split: if_splits)
  from w have "s\<lparr>worker := Resuming\<rparr> = s" by simp
  with drain_progress[of opts s a n] inv pr s' show ?thesis by simp
qed

lemma pq_step_progress:
  assumes st: "pq_step opts ev s = Some s'" and inv: "pq_inv opts s"
    and pr: "job_progress opts a s n" and af: "answer_failing opts a ev s"
  shows "job_progress opts a s' (n + (if enters_printing a s s' then 1 else 0))"
proof (cases ev)
  case (PqEnqueue job i clock)
  with st have "s' = pq_enqueue opts job i clock s" by simp
  then show ?thesis using enqueue_progress[OF inv pr] by (simp only:)
next
  case (AccessDone ok)
  with st af show ?thesis using access_done_progress[OF inv pr] by (simp only: pq_step.simps)
next
  case (DispatchDone cev)
  with st af show ?thesis using dispatch_done_progress[OF inv pr] by (simp only: pq_step.simps)
next
  case Resume
  with st show ?thesis using resume_progress[OF inv pr] by (simp only: pq_step.simps)
qed

lemma pq_exec_progress:
  "pq_exec opts evs s = Some s' \<Longrightarrow> pq_inv opts s \<Longrightarrow> job_progress opts a s n \<Longrightarrow>
   always_failing opts a evs s \<Longrightarrow> job_progress opts a s' (n + pq_entries opts a evs s)"
proof (induction evs arbitrary: s n)
  case Nil
  then show ?case by simp
next
  case (Cons ev evs)
  from Cons.prems(1) obtain s1 where st: "pq_step opts ev s = Some s1"
    and ex: "pq_exec opts evs s1 = Some s'"
    by (auto split: option.splits)
  from Cons.prems(4) st have af: "answer_failing opts a ev s" and rest: "always_failing opts a evs s1"
    by simp_all
  from pq_step_progress[OF st Cons.prems(2,3) af]
  have p1: "job_progress opts a s1 (n + (if enters_printing a s s1 then 1 else 0))" .
  from Cons.IH[OF ex pq_step_inv[OF st Cons.prems(2)] p1 rest] st show ?case
    by (simp add: add.assoc)
qed

lemma failing_job_progress:
  assumes run: "pq_exec opts evs pq_init = Some s" and al: "a < allocated s"
    and af: "always_failing opts a evs pq_init"
  shows "pq_entries opts a evs pq_init = attempts (heap s a) + (if current a s then 1 else 0) \<and>
         (a \<in> set (pq_queue s) \<or> current a s \<or>
          status (heap s a) = Error \<and> attempts (heap s a) = queueRetries opts + 1 \<and>
          pq_entries opts a evs pq_init = queueRetries opts + 1)"
proof -
  have "job_progress opts a pq_init 0"
    by (simp add: job_progress_def pq_init_def)
  from pq_exec_progress[OF run pq_inv_init this af] al show ?thesis
    by (auto simp: job_progress_def)
qed

subsection \<open>The worker becomes idle\<close>

lemma queue_load_outside: "a \<notin> set q \<Longrightarrow> queue_load opts (h(a := x)) q = queue_load opts h q"
  by (induction q) auto

lemma queue_load_append: "queue_load opts h (q @ [a]) = queue_load opts h q + 3 * rounds_left opts (h a)"
  by (induction q) auto

lemma respond_step:
  assumes inv: "pq_inv opts s" and w: "worker s \<noteq> Idle"
  shows "\<exists>ev s'. respond answer s = Some ev \<and> pq_step opts ev s = Some s' \<and>
           pq_measure opts s' < pq_measure opts s"
proof (cases "worker s")
  case Idle
  with w show ?thesis by simp
next
  case (AwaitAccess a)
  with inv have att: "attempts (heap s a) \<le> queueRetries opts" and nq: "a \<notin> set (pq_queue s)"
    by (auto simp: pq_inv_def current_def)
  from AwaitAccess att nq show ?thesis
    by (auto simp: respond_def access_done_def pq_measure_def update_job_def queue_load_outside
          rounds_left_def)
next
  case (AwaitDispatch a)
  with inv have att: "attempts (heap s a) \<le> queueRetries opts" and nq: "a \<notin> set (pq_queue s)"
    by (auto simp: pq_inv_def current_def)
  from AwaitDispatch att nq show ?thesis
    by (auto simp: respond_def dispatch_done_def pq_measure_def update_job_def queue_load_outside
          queue_load_append rounds_left_def Let_def split: sum.splits)
next
  case Resuming
  show ?thesis
  proof (cases "pq_queue s")
    case Nil
    with Resuming show ?thesis
      by (simp add: respond_def resume_def drain_def pq_measure_def)
  next
    case (Cons a rest)
    with inv have nq: "a \<notin> set rest" and att: "attempts (heap s a) \<le> queueRetries opts"
      by (auto simp: pq_inv_def)
    from Resuming Cons nq att show ?thesis
      by (simp add: respond_def resume_def drain_def pq_measure_def update_job_def
            queue_load_outside rounds_left_def)
  qed
qed

lemma measure_zero_idle: "pq_inv opts s \<Longrightarrow> pq_measure opts s = 0 \<Longrightarrow> worker s = Idle"
  by (cases "worker s") (auto simp: pq_measure_def pq_inv_def current_def rounds_left_def)

lemma responses_reach_idle:
  "pq_inv opts s \<Longrightarrow> pq_measure opts s \<le> length answers \<Longrightarrow>
   \<exists>s'. pq_exec opts (responses opts answers s) s = Some s' \<and> worker s' = Idle"
proof (induction answers arbitrary: s)
  case Nil
  then show ?case by (simp add: measure_zero_idle)
next
  case (Cons answer rest)
  show ?case
  proof (cases "worker s = Idle")
    case True
    then show ?thesis by (simp add: respond_def)
  next
    case False
    from respond_step[OF Cons.prems(1) False, of answer] obtain ev s1 where
      r: "respond answer s = Some ev" and st: "pq_step opts ev s = Some s1"
      and less: "pq_measure opts s1 < pq_measure opts s"
      by blast
    from less Cons.prems(2) have "pq_measure opts s1 \<le> length rest" by simp
    from Cons.IH[OF pq_step_inv[OF st Cons.prems(1)] this] r st show ?thesis by simp
  qed
qed


lemma responses_failing:
  "\<forall>answer \<in> set answers. fst answer \<and> dispatch_fails opts (snd answer) \<Longrightarrow>
   always_failing opts a (responses opts answers s) s"
proof (induction answers arbitrary: s)
  case Nil
  then show ?case by simp
next
  case (Cons answer rest)
  then show ?case
    by (auto simp: respond_def answer_failing_def split: option.splits worker.splits)
qed

text \<open>
  Claim C3. In every state the print queue can reach, no job has more than
  \<open>queueRetries + 1\<close> attempts; a job with more than \<open>queueRetries\<close> attempts has status
  \<open>error\<close>, is neither queued nor being processed, and stays exactly as it is whatever
  happens next, so it is never requeued. For a job whose file exists at each of its
  checks and whose print command fails each time, wherever it stands in the queue and
  whatever is enqueued or happens to other jobs meanwhile: the number of its
  transitions from \<open>queued\<close> to \<open>printing\<close> is the number of its attempts, plus one
  while it is being processed; as long as it is neither queued nor being processed it
  has status \<open>error\<close>, \<open>queueRetries + 1\<close> attempts and \<open>queueRetries + 1\<close> such
  transitions; and once nothing more is enqueued and the outside world has given
  \<open>pq_measure\<close> answers, the worker is idle, the queue is empty and the job has ended
  so.
\<close>

theorem print_attempts_are_bounded:
  assumes "pq_exec opts evs pq_init = Some s"
  shows "attempts (heap s a) \<le> queueRetries opts + 1 \<and>
         (queueRetries opts < attempts (heap s a) \<longrightarrow>
            status (heap s a) = Error \<and> a \<notin> set (pq_queue s) \<and>
            worker s \<noteq> AwaitAccess a \<and> worker s \<noteq> AwaitDispatch a \<and>
            (\<forall>evs' s'. pq_exec opts evs' s = Some s' \<longrightarrow>
               heap s' a = heap s a \<and> a \<notin> set (pq_queue s'))) \<and>
         (a < allocated s \<and> always_failing opts a evs pq_init \<longrightarrow>
            pq_entries opts a evs pq_init = attempts (heap s a) + (if current a s then 1 else 0) \<and>
            (a \<in> set (pq_queue s) \<or> current a s \<or>
             status (heap s a) = Error \<and> attempts (heap s a) = queueRetries opts + 1 \<and>
             pq_entries opts a evs pq_init = queueRetries opts + 1)) \<and>
         (a < allocated s \<and> pq_measure opts s \<le> length answers \<and>
          always_failing opts a (evs @ responses opts answers s) pq_init \<longrightarrow>
            (\<exists>s'. pq_exec opts (evs @ responses opts answers s) pq_init = Some s' \<and>
               worker s' = Idle \<and> pq_queue s' = [] \<and>
               status (heap s' a) = Error \<and>
               attempts (heap s' a) = queueRetries opts + 1 \<and>
               pq_entries opts a (evs @ responses opts answers s) pq_init = queueRetries opts + 1))"
proof -
  from pq_reachable_inv[OF assms] have inv: "pq_inv opts s" .
  have bound: "attempts (heap s a) \<le> queueRetries opts + 1"
    using inv by (simp add: pq_inv_def)
  have terminal: "status (heap s a) = Error \<and> a \<notin> set (pq_queue s) \<and>
            worker s \<noteq> AwaitAccess a \<and> worker s \<noteq> AwaitDispatch a \<and>
            (\<forall>evs' s'. pq_exec opts evs' s = Some s' \<longrightarrow>
               heap s' a = heap s a \<and> a \<notin> set (pq_queue s'))"
    if over: "queueRetries opts < attempts (heap s a)"
  proof -
    from inv over have st: "status (heap s a) = Error" by (simp add: pq_inv_def)
    from inv over have nq: "a \<notin> set (pq_queue s)" and nc: "\<not> current a s"
      by (auto simp: pq_inv_def)
    have "a < allocated s"
    proof (rule ccontr)
      assume "\<not> a < allocated s"
      with inv have "heap s a = no_job" by (simp add: pq_inv_def)
      with over show False by (simp add: no_job_def)
    qed
    with nq nc have "settled a s" by (simp add: settled_def)
    from settled_stays[OF this] st nq nc show ?thesis
      by (auto simp: current_def)
  qed
  have failing: "pq_entries opts a evs pq_init = attempts (heap s a) + (if current a s then 1 else 0) \<and>
            (a \<in> set (pq_queue s) \<or> current a s \<or>
             status (heap s a) = Error \<and> attempts (heap s a) = queueRetries opts + 1 \<and>
             pq_entries opts a evs pq_init = queueRetries opts + 1)"
    if "a < allocated s" "always_failing opts a evs pq_init"
    using failing_job_progress[OF assms that] .
  have ends: "\<exists>s'. pq_exec opts (evs @ responses opts answers s) pq_init = Some s' \<and>
               worker s' = Idle \<and> pq_queue s' = [] \<and>
               status (heap s' a) = Error \<and>
               attempts (heap s' a) = queueRetries opts + 1 \<and>
               pq_entries opts a (evs @ responses opts answers s) pq_init = queueRetries opts + 1"
    if al: "a < allocated s" and enough: "pq_measure opts s \<le> length answers"
      and af: "always_failing opts a (evs @ responses opts answers s) pq_init"
  proof -
    from responses_reach_idle[OF inv enough] obtain s' where
      rest: "pq_exec opts (responses opts answers s) s = Some s'" and idle: "worker s' = Idle"
      by blast
    from assms rest have whole: "pq_exec opts (evs @ responses opts answers s) pq_init = Some s'"
      by (simp add: pq_exec_append)
    from pq_reachable_inv[OF whole] idle have empty: "pq_queue s' = []"
      by (simp add: pq_inv_def)
    from pq_exec_allocated[OF rest] al have al': "a < allocated s'" by simp
    from failing_job_progress[OF whole al' af] idle empty whole show ?thesis
      by (auto simp: current_def)
  qed
  from bound terminal failing ends show ?thesis by blast
qed

lemma two_jobs_run:
  "pq_exec sample_printer_opts two_jobs_enqueued pq_init = Some two_jobs_waiting"
  by (simp add: two_jobs_enqueued_def two_jobs_waiting_def)

lemma two_jobs_state:
  "worker two_jobs_waiting = AwaitAccess 0 \<and> pq_queue two_jobs_waiting = [1] \<and>
   allocated two_jobs_waiting = 2 \<and> pq_measure sample_printer_opts two_jobs_waiting = 18"
  by (simp add: two_jobs_waiting_def sample_printer_opts_def pq_init_def pq_enqueue_def tick_def
        drain_def update_job_def pq_measure_def rounds_left_def Let_def)

theorem print_attempts_are_bounded_witness:
  "pq_exec sample_printer_opts two_jobs_enqueued pq_init = Some two_jobs_waiting \<and>
   pq_queue two_jobs_waiting = [1] \<and> worker two_jobs_waiting = AwaitAccess 0 \<and>
   pq_measure sample_printer_opts two_jobs_waiting \<le> length failing_answers \<and>
   always_failing sample_printer_opts 1
     (two_jobs_enqueued @ responses sample_printer_opts failing_answers two_jobs_waiting) pq_init \<and>
   pq_entries sample_printer_opts 1
     (two_jobs_enqueued @ responses sample_printer_opts failing_answers two_jobs_waiting) pq_init = 3 \<and>
   map_option (fst \<circ> snapshot 1)
     (pq_exec sample_printer_opts
        (two_jobs_enqueued @ responses sample_printer_opts failing_answers two_jobs_waiting) pq_init) =
     Some Error \<and>
   map_option (snd \<circ> snd \<circ> snapshot 1)
     (pq_exec sample_printer_opts
        (two_jobs_enqueued @ responses sample_printer_opts failing_answers two_jobs_waiting) pq_init) =
     Some 3"
proof -
  let ?run = "two_jobs_enqueued @ responses sample_printer_opts failing_answers two_jobs_waiting"
  have r: "queueRetries sample_printer_opts = 2" by (simp add: sample_printer_opts_def)
  have al: "1 < allocated two_jobs_waiting" using two_jobs_state by simp
  have enough: "pq_measure sample_printer_opts two_jobs_waiting \<le> length failing_answers"
    using two_jobs_state by (simp add: failing_answers_def)
  have "\<forall>answer \<in> set failing_answers. fst answer \<and> dispatch_fails sample_printer_opts (snd answer)"
    by (simp add: failing_answers_def dispatch_fails_def spawnCommand_def)
  from responses_failing[OF this]
  have "always_failing sample_printer_opts 1
          (responses sample_printer_opts failing_answers two_jobs_waiting) two_jobs_waiting" .
  moreover have "always_failing sample_printer_opts 1 two_jobs_enqueued pq_init"
    by (simp add: two_jobs_enqueued_def answer_failing_def)
  ultimately have af: "always_failing sample_printer_opts 1 ?run pq_init"
    using always_failing_append[OF two_jobs_run] by simp
  from print_attempts_are_bounded[OF two_jobs_run, of 1 failing_answers] al enough af
  obtain s' where "pq_exec sample_printer_opts ?run pq_init = Some s'"
    "status (heap s' 1) = Error" "attempts (heap s' 1) = queueRetries sample_printer_opts + 1"
    "pq_entries sample_printer_opts 1 ?run pq_init = queueRetries sample_printer_opts + 1"
    by blast
  with r two_jobs_run two_jobs_state enough af show ?thesis
    by (simp add: snapshot_def)
qed

subsection \<open>Missing files\<close>

text \<open>
  Claim C4, as stated, fails: a job whose file was there at its first check, whose print
  command then failed, and whose file is gone at the second check ends in \<open>error\<close> with
  message \<open>File not found\<close> and with one attempt counted, not none.
\<close>

theorem missing_file_after_a_failed_dispatch:
  "map_option (snapshot 0)
     (pq_exec sample_printer_opts
        [PqEnqueue sample_print_job ''print-1'' 7, AccessDone True, DispatchDone (Exit (Some 1)),
         Resume, AccessDone False]
        pq_init) =
   Some (Error, Some ''File not found'', 1)"
  by (simp add: sample_printer_opts_def pq_init_def pq_enqueue_def tick_def drain_def
        update_job_def access_done_def dispatch_done_def resume_def spawnCommand_def
        print_command_def Let_def snapshot_def show_int_def show_nat_def decimal_digits.simps)

text \<open>
  Claim C4, amended. When the file check of a job fails, the job goes from \<open>printing\<close>
  to \<open>error\<close> with message \<open>File not found\<close>; its attempt count is left as it was,
  the queue is left as it was and does not hold the job, the print command is not
  started, and from then on the job stays exactly as it is: it is never requeued and
  never dispatched. For a job enqueued on an idle queue, whose file is missing at its
  first check, the attempt count so left is 0.
\<close>

theorem missing_file_is_terminal:
  assumes "pq_exec opts evs pq_init = Some s"
  shows "(worker s = AwaitAccess a \<longrightarrow>
            (\<exists>s'. pq_step opts (AccessDone False) s = Some s' \<and>
               status (heap s a) = Printing \<and>
               status (heap s' a) = Error \<and> error (heap s' a) = Some ''File not found'' \<and>
               attempts (heap s' a) = attempts (heap s a) \<and>
               pq_queue s' = pq_queue s \<and> a \<notin> set (pq_queue s') \<and> worker s' = Resuming \<and>
               (\<forall>evs' s''. pq_exec opts evs' s' = Some s'' \<longrightarrow>
                  heap s'' a = heap s' a \<and> a \<notin> set (pq_queue s'') \<and>
                  worker s'' \<noteq> AwaitDispatch a))) \<and>
         (worker s = Idle \<longrightarrow>
            (\<exists>s'. pq_exec opts [PqEnqueue job i clock, AccessDone False] s = Some s' \<and>
               snapshot (allocated s) s' = (Error, Some ''File not found'', 0)))"
proof -
  from pq_reachable_inv[OF assms] have inv: "pq_inv opts s" .
  have first: "\<exists>s'. pq_step opts (AccessDone False) s = Some s' \<and>
               status (heap s a) = Printing \<and>
               status (heap s' a) = Error \<and> error (heap s' a) = Some ''File not found'' \<and>
               attempts (heap s' a) = attempts (heap s a) \<and>
               pq_queue s' = pq_queue s \<and> a \<notin> set (pq_queue s') \<and> worker s' = Resuming \<and>
               (\<forall>evs' s''. pq_exec opts evs' s' = Some s'' \<longrightarrow>
                  heap s'' a = heap s' a \<and> a \<notin> set (pq_queue s'') \<and>
                  worker s'' \<noteq> AwaitDispatch a)"
    if w: "worker s = AwaitAccess a"
  proof -
    let ?s' = "update_job a (\<lambda>j. j\<lparr>status := Error, error := Some ''File not found''\<rparr>)
                 (s\<lparr>worker := Resuming\<rparr>)"
    from w have step: "pq_step opts (AccessDone False) s = Some ?s'"
      by (simp add: access_done_def)
    from inv w have nq: "a \<notin> set (pq_queue s)" and al: "a < allocated s"
      by (auto simp: pq_inv_def current_def)
    from nq al have "settled a ?s'"
      by (simp add: settled_def current_def update_job_def)
    from settled_stays[OF this]
    have later: "\<forall>evs' s''. pq_exec opts evs' ?s' = Some s'' \<longrightarrow>
                  heap s'' a = heap ?s' a \<and> a \<notin> set (pq_queue s'') \<and>
                  worker s'' \<noteq> AwaitDispatch a"
      by blast
    have pr: "status (heap s a) = Printing"
      using printing_while_checked[OF assms w] .
    from step nq later pr show ?thesis
      by (intro exI[of _ ?s']) (simp add: update_job_def)
  qed
  have second: "\<exists>s'. pq_exec opts [PqEnqueue job i clock, AccessDone False] s = Some s' \<and>
               snapshot (allocated s) s' = (Error, Some ''File not found'', 0)"
    if idle: "worker s = Idle"
    using inv idle
    by (auto simp: pq_inv_def pq_enqueue_def tick_def drain_def update_job_def Let_def
          access_done_def snapshot_def)
  from first second show ?thesis by blast
qed

lemma sample_job_at_file_check:
  "pq_exec sample_printer_opts [PqEnqueue sample_print_job ''print-1'' 7] pq_init = Some sample_checking"
  by (simp add: sample_checking_def)

theorem missing_file_is_terminal_witness:
  "pq_exec sample_printer_opts [PqEnqueue sample_print_job ''print-1'' 7] pq_init = Some sample_checking \<and>
   worker sample_checking = AwaitAccess 0 \<and>
   map_option (snapshot 0) (pq_step sample_printer_opts (AccessDone False) sample_checking) =
     Some (Error, Some ''File not found'', 0) \<and>
   map_option pq_queue (pq_step sample_printer_opts (AccessDone False) sample_checking) = Some [] \<and>
   worker pq_init = Idle \<and>
   map_option (snapshot 0)
     (pq_exec sample_printer_opts [PqEnqueue sample_print_job ''print-1'' 7, AccessDone False] pq_init) =
     Some (Error, Some ''File not found'', 0)"
proof -
  have w: "worker sample_checking = AwaitAccess 0"
    by (simp add: sample_checking_def pq_init_def pq_enqueue_def tick_def drain_def update_job_def Let_def)
  have z: "attempts (heap sample_checking 0) = 0" and q: "pq_queue sample_checking = []"
    by (simp_all add: sample_checking_def pq_init_def pq_enqueue_def tick_def drain_def
          update_job_def Let_def)
  have start: "pq_exec sample_printer_opts [] pq_init = Some pq_init" by simp
  have idle: "worker pq_init = Idle" and al: "allocated pq_init = 0"
    by (simp_all add: pq_init_def)
  from missing_file_is_terminal[OF start, of 0 sample_print_job "''print-1''" 7] idle al
  obtain s' where
    first: "pq_exec sample_printer_opts [PqEnqueue sample_print_job ''print-1'' 7, AccessDone False]
              pq_init = Some s'"
    and snap: "snapshot 0 s' = (Error, Some ''File not found'', 0)"
    by auto
  from missing_file_is_terminal[OF sample_job_at_file_check, of 0] w z q sample_job_at_file_check
    first snap idle
  show ?thesis
    by (auto simp: snapshot_def)
qed

subsection \<open>The outcome of the print command\<close>

text \<open>
  Claim C8. A spawn error with code \<open>ENOENT\<close> resolves \<open>spawnCommand\<close>, and the job
  being printed becomes \<open>completed\<close> with its error cleared, its attempt count
  unchanged and the queue unchanged. Any other spawn error rejects with the error's
  message and any exit code other than 0 rejects as well; a rejection counts one
  attempt, records the message, and requeues the job or ends it in \<open>error\<close>.
\<close>

theorem missing_print_binary_counts_as_success:
  "spawnCommand command (SpawnError (Some ''ENOENT'') m) = Inr () \<and>
   (code \<noteq> Some ''ENOENT'' \<longrightarrow> spawnCommand command (SpawnError code m) = Inl m) \<and>
   (c \<noteq> Some 0 \<longrightarrow> isl (spawnCommand command (Exit c))) \<and>
   spawnCommand command (Exit (Some 0)) = Inr () \<and>
   (worker s = AwaitDispatch a \<longrightarrow>
      (\<exists>s'. dispatch_done opts (SpawnError (Some ''ENOENT'') m) s = Some s' \<and>
         status (heap s' a) = Completed \<and> error (heap s' a) = None \<and>
         attempts (heap s' a) = attempts (heap s a) \<and>
         pq_queue s' = pq_queue s \<and> worker s' = Resuming)) \<and>
   (worker s = AwaitDispatch a \<and>
    (ev = SpawnError code m \<and> code \<noteq> Some ''ENOENT'' \<or> ev = Exit c \<and> c \<noteq> Some 0) \<longrightarrow>
      (\<exists>s'. dispatch_done opts ev s = Some s' \<and>
         attempts (heap s' a) = attempts (heap s a) + 1 \<and>
         error (heap s' a) \<noteq> None \<and>
         status (heap s' a) =
           (if attempts (heap s a) + 1 \<le> queueRetries opts then Queued else Error) \<and>
         pq_queue s' =
           (if attempts (heap s a) + 1 \<le> queueRetries opts then pq_queue s @ [a] else pq_queue s)))"
  by (auto simp: spawnCommand_def dispatch_done_def update_job_def Let_def)

theorem missing_print_binary_counts_as_success_witness:
  "pq_exec sample_printer_opts [PqEnqueue sample_print_job ''print-1'' 7, AccessDone True] pq_init =
     Some sample_dispatching \<and>
   worker sample_dispatching = AwaitDispatch 0 \<and>
   map_option (snapshot 0)
     (dispatch_done sample_printer_opts (SpawnError (Some ''ENOENT'') ''spawn lp ENOENT'')
        sample_dispatching) = Some (Completed, None, 0) \<and>
   map_option (snapshot 0)
     (dispatch_done sample_printer_opts (Exit (Some 1)) sample_dispatching) =
     Some (Queued, Some ''lp exited with code 1'', 1)"
proof -
  have run: "pq_exec sample_printer_opts
      [PqEnqueue sample_print_job ''print-1'' 7, AccessDone True] pq_init = Some sample_dispatching"
    by (simp add: sample_dispatching_def sample_checking_def pq_init_def pq_enqueue_def tick_def
          drain_def update_job_def Let_def access_done_def)
  have w: "worker sample_dispatching = AwaitDispatch 0"
    by (simp add: sample_dispatching_def)
  have z: "attempts (heap sample_dispatching 0) = 0"
    by (simp add: sample_dispatching_def sample_checking_def pq_init_def pq_enqueue_def tick_def
          drain_def update_job_def Let_def)
  have r: "queueRetries sample_printer_opts = 2" by (simp add: sample_printer_opts_def)
  have msg: "map_option (fst \<circ> snd \<circ> snapshot 0)
               (dispatch_done sample_printer_opts (Exit (Some 1)) sample_dispatching) =
             Some (Some ''lp exited with code 1'')"
    by (simp add: sample_dispatching_def dispatch_done_def spawnCommand_def print_command_def
          sample_printer_opts_def show_int_def show_nat_def decimal_digits.simps digit_char_def
          update_job_def Let_def snapshot_def)
  from missing_print_binary_counts_as_success[of "''lp''" "''spawn lp ENOENT''" None
      "Some 1" sample_dispatching 0 sample_printer_opts "Exit (Some 1)"]
    w z r run msg
  show ?thesis
    by (auto simp: snapshot_def)
qed


section \<open>Live-view broadcaster: proofs\<close>

subsection \<open>The timer\<close>



















subsection \<open>The latest-frame query\<close>

text \<open>
  Claim C10. With a frame in the cache, \<open>getLatestFrame\<close> returns that frame at once,
  calls nothing and changes nothing, whatever the timer and the subscribers are. With
  an empty cache it makes exactly one call for a frame on the driver and suspends,
  again whatever the timer and the subscribers are; resumed with a frame it stores the
  frame in the cache and returns it; resumed with an error it returns nothing and
  leaves the cache empty.
\<close>

theorem latest_frame_query:
  "(latestFrame s = Some frame \<longrightarrow> getLatestFrame s = (Returned (Some frame), s, [])) \<and>
   (latestFrame s = None \<longrightarrow>
      getLatestFrame s = (Suspended, s\<lparr>latest_waiting := latest_waiting s + 1\<rparr>, [FetchFrame]) \<and>
      getLatestFrame_resume (Inr buf) (s\<lparr>latest_waiting := latest_waiting s + 1\<rparr>) =
        Some (Some buf, s\<lparr>latestFrame := Some buf\<rparr>) \<and>
      getLatestFrame_resume (Inl err) (s\<lparr>latest_waiting := latest_waiting s + 1\<rparr>) =
        Some (None, s) \<and>
      latestFrame (snd (the (getLatestFrame_resume (Inl err)
                      (s\<lparr>latest_waiting := latest_waiting s + 1\<rparr>)))) = None)"
  by (simp add: getLatestFrame_def getLatestFrame_resume_def)

theorem latest_frame_query_witness:
  "liveInterval cam_with_frame = False \<and> liveViewClients cam_with_frame = [] \<and>
   getLatestFrame cam_with_frame = (Returned (Some ''stale frame''), cam_with_frame, []) \<and>
   liveInterval cam_init = False \<and> liveViewClients cam_init = [] \<and>
   getLatestFrame cam_init = (Suspended, cam_init\<lparr>latest_waiting := 1\<rparr>, [FetchFrame]) \<and>
   getLatestFrame_resume (Inr ''frame'') (cam_init\<lparr>latest_waiting := 1\<rparr>) =
     Some (Some ''frame'', cam_init\<lparr>latestFrame := Some ''frame''\<rparr>) \<and>
   getLatestFrame_resume (Inl ''no camera'') (cam_init\<lparr>latest_waiting := 1\<rparr>) =
     Some (None, cam_init)"
proof -
  have a: "latestFrame cam_with_frame = Some ''stale frame''"
    by (simp add: cam_with_frame_def)
  have b: "latestFrame cam_init = None" and c: "latest_waiting cam_init = 0"
    by (simp_all add: cam_init_def)
  from latest_frame_query[of cam_with_frame "''stale frame''" "''frame''" "''no camera''"]
    latest_frame_query[of cam_init "''stale frame''" "''frame''" "''no camera''"] a b c
  show ?thesis by (simp add: cam_with_frame_def cam_init_def)
qed


end
